theory Spec2Isabelle
  imports Main "HOL-Library.Word"
begin

unbundle bit_operations_syntax

section \<open>Fixed performance counters of one x86-64 core (osfmk/x86_64/monotonic_x86_64.c)\<close>

text \<open>
  The file drives the three fixed performance counters of a logical CPU. Its C integers
  are modelled as machine words: \<open>uint64_t\<close> is \<open>64 word\<close>, \<open>unsigned int\<close> and MSR numbers
  are \<open>32 word\<close>. A \<open>panic\<close> or a failed \<open>assert\<close> is the left summand of a result.
\<close>

type_synonym u64 = "64 word"
type_synonym u32 = "32 word"

subsection \<open>State\<close>

text \<open>
  \<open>struct mt_cpu\<close> (declared outside this file): the two arrays this file indexes,
  each of \<open>MT_CORE_NFIXED\<close> entries of \<open>uint64_t\<close>, as functions of the index. The code
  only uses the indices \<open>0 \<le> i < MT_CORE_NFIXED\<close>.
\<close>

record mt_cpu =
  mtc_snaps :: "nat \<Rightarrow> u64"
  mtc_counts :: "nat \<Rightarrow> u64"

text \<open>
  What the file does to the world outside its memory is kept as a log, oldest first: the
  MSR writes (\<open>wrmsr64\<close>), the calls of \<open>ml_set_interrupts_enabled\<close>, the call of
  \<open>kpc_pmi_handler\<close> (with the pointer it is given) and of \<open>lapic_set_pmi_func\<close>.
\<close>

datatype event =
    Wrmsr64 u32 u64
  | Ml_set_interrupts_enabled bool
  | Kpc_pmi_handler u64
  | Lapic_set_pmi_func

text \<open>
  The state one core sees: the global \<open>mt_core_supported\<close>, the global counter of PMIs
  \<open>mt_pmis\<close>, the \<open>cpu_monotonic\<close> member of the current CPU's \<open>cpu_data_t\<close>, the interrupt
  flag that \<open>ml_get_interrupts_enabled\<close> reads, what the hardware answers to \<open>rdmsr64\<close> and
  to \<open>rdpmc\<close>, and the log.
\<close>

record machine =
  mt_core_supported :: bool
  mt_pmis :: u64
  cpu_monotonic :: mt_cpu
  intrs_enabled :: bool
  msr_value :: "u32 \<Rightarrow> u64"
  pmc_value :: "u64 \<Rightarrow> u64"
  trace :: "event list"

datatype error =
    Panic string u32
  | Assert_failed string

subsection \<open>Constants of the file\<close>

text \<open>
  Modelled from the spec: \<open>MT_CORE_NFIXED\<close>, defined in x86_64/monotonic.h, which is not
  among the sources. The spec gives three fixed counters per core, with indices 0, 1, 2.
\<close>

definition MT_CORE_NFIXED :: nat where
  "MT_CORE_NFIXED = 3"

definition PMC_FIXED_RD :: "u64 \<Rightarrow> u64" where
  "PMC_FIXED_RD CTR = push_bit 30 1 OR CTR"

text \<open>
  \<open>MSR_IA32_PERF_FIXED_CTR0\<close> comes from i386/proc_reg.h, which is not among the
  sources: it is the parameter \<open>fixed_ctr0\<close> of everything that writes a counter.
\<close>

definition PMC_FIXED_WR :: "u32 \<Rightarrow> u32 \<Rightarrow> u32" where
  "PMC_FIXED_WR fixed_ctr0 CTR = fixed_ctr0 + CTR"

definition FIXED_CTR_CTRL :: u32 where
  "FIXED_CTR_CTRL = 0x38d"

definition FIXED_CTR_CTRL_INIT :: u64 where
  "FIXED_CTR_CTRL_INIT = 0x888 OR 0x333"

definition GLOBAL_CTRL :: u32 where
  "GLOBAL_CTRL = 0x38f"

definition GLOBAL_CTRL_FIXED_EN :: u64 where
  "GLOBAL_CTRL_FIXED_EN = push_bit 32 (push_bit 3 1 - 1)"

definition GLOBAL_STATUS :: u32 where
  "GLOBAL_STATUS = 0x38e"

definition CTR_MAX :: u64 where
  "CTR_MAX = push_bit 48 1 - 1"

definition CTR_FIX_POS :: "nat \<Rightarrow> u64" where
  "CTR_FIX_POS CTR = push_bit 32 (push_bit CTR 1)"

subsection \<open>Primitives the file calls\<close>

definition ml_get_interrupts_enabled :: "machine \<Rightarrow> bool" where
  "ml_get_interrupts_enabled m = intrs_enabled m"

text \<open>\<open>ml_set_interrupts_enabled\<close> returns the flag as it was.\<close>

definition ml_set_interrupts_enabled :: "bool \<Rightarrow> machine \<Rightarrow> bool \<times> machine" where
  "ml_set_interrupts_enabled enable m =
     (intrs_enabled m,
      m\<lparr>intrs_enabled := enable, trace := trace m @ [Ml_set_interrupts_enabled enable]\<rparr>)"

definition rdmsr64 :: "u32 \<Rightarrow> machine \<Rightarrow> u64" where
  "rdmsr64 msr m = msr_value m msr"

definition wrmsr64 :: "u32 \<Rightarrow> u64 \<Rightarrow> machine \<Rightarrow> machine" where
  "wrmsr64 msr val m = m\<lparr>trace := trace m @ [Wrmsr64 msr val]\<rparr>"

definition rdpmc :: "u64 \<Rightarrow> machine \<Rightarrow> u64" where
  "rdpmc sel m = pmc_value m sel"

definition kpc_pmi_handler :: "u64 \<Rightarrow> machine \<Rightarrow> machine" where
  "kpc_pmi_handler state m = m\<lparr>trace := trace m @ [Kpc_pmi_handler state]\<rparr>"

subsection \<open>Counter register access\<close>

definition mt_core_snap :: "u32 \<Rightarrow> machine \<Rightarrow> error + u64" where
  "mt_core_snap ctr m =
     (if \<not> mt_core_supported m then Inr 0
      else if ctr = 0 then Inr (rdpmc (PMC_FIXED_RD 0) m)
      else if ctr = 1 then Inr (rdpmc (PMC_FIXED_RD 1) m)
      else if ctr = 2 then Inr (rdpmc (PMC_FIXED_RD 2) m)
      else Inl (Panic ''monotonic: invalid core counter read: %u'' ctr))"

definition mt_core_set_snap :: "u32 \<Rightarrow> u32 \<Rightarrow> u64 \<Rightarrow> machine \<Rightarrow> error + machine" where
  "mt_core_set_snap fixed_ctr0 ctr count m =
     (if \<not> mt_core_supported m then Inr m
      else if ctr = 0 then Inr (wrmsr64 (PMC_FIXED_WR fixed_ctr0 0) count m)
      else if ctr = 1 then Inr (wrmsr64 (PMC_FIXED_WR fixed_ctr0 1) count m)
      else if ctr = 2 then Inr (wrmsr64 (PMC_FIXED_WR fixed_ctr0 2) count m)
      else Inl (Panic ''monotonic: invalid core counter write: %u'' ctr))"

subsection \<open>Core shutdown\<close>

text \<open>
  \<open>mt_mtc_update_fixed_counts(&cpu->cpu_monotonic, NULL, NULL)\<close>, which \<open>core_down\<close> calls
  last, is defined outside this file and is not among the sources. It receives the pointer
  to the per-core record, so it is taken as a parameter: a function of the state giving
  the record as the call leaves it.
\<close>

type_synonym update_fixed_counts = "machine \<Rightarrow> mt_cpu"

definition core_down :: "update_fixed_counts \<Rightarrow> machine \<Rightarrow> error + machine" where
  "core_down flush m =
     (if \<not> mt_core_supported m then Inr m
      else if ml_get_interrupts_enabled m \<noteq> False
        then Inl (Assert_failed ''ml_get_interrupts_enabled() == FALSE'')
      else
        (let m1 = wrmsr64 GLOBAL_CTRL 0 m in
         Inr (m1\<lparr>cpu_monotonic := flush m1\<rparr>)))"

definition mt_cpu_down :: "update_fixed_counts \<Rightarrow> machine \<Rightarrow> error + machine" where
  "mt_cpu_down flush m = core_down flush m"

subsection \<open>Core startup\<close>

text \<open>The loop of \<open>core_up\<close>: \<open>for (int i = 0; i < MT_CORE_NFIXED; i++)\<close>, from \<open>i\<close> on.\<close>

function core_up_loop :: "u32 \<Rightarrow> nat \<Rightarrow> machine \<Rightarrow> error + machine" where
  "core_up_loop fixed_ctr0 i m =
     (if i < MT_CORE_NFIXED then
        (case mt_core_set_snap fixed_ctr0 (of_nat i) (mtc_snaps (cpu_monotonic m) i) m of
           Inl e \<Rightarrow> Inl e
         | Inr m' \<Rightarrow> core_up_loop fixed_ctr0 (i + 1) m')
      else Inr m)"
  by pat_completeness auto
termination
  by (relation "measure (\<lambda>(fixed_ctr0, i, m). MT_CORE_NFIXED - i)") auto

declare core_up_loop.simps [simp del]

definition core_up :: "u32 \<Rightarrow> machine \<Rightarrow> error + machine" where
  "core_up fixed_ctr0 m =
     (if \<not> mt_core_supported m then Inr m
      else if ml_get_interrupts_enabled m \<noteq> False
        then Inl (Assert_failed ''ml_get_interrupts_enabled() == FALSE'')
      else
        (case core_up_loop fixed_ctr0 0 m of
           Inl e \<Rightarrow> Inl e
         | Inr m1 \<Rightarrow>
             Inr (wrmsr64 GLOBAL_CTRL GLOBAL_CTRL_FIXED_EN
                    (wrmsr64 FIXED_CTR_CTRL FIXED_CTR_CTRL_INIT m1))))"

definition mt_cpu_up :: "u32 \<Rightarrow> machine \<Rightarrow> error + machine" where
  "mt_cpu_up fixed_ctr0 m =
     (let (intrs_en, m1) = ml_set_interrupts_enabled False m in
      case core_up fixed_ctr0 m1 of
        Inl e \<Rightarrow> Inl e
      | Inr m2 \<Rightarrow> Inr (snd (ml_set_interrupts_enabled intrs_en m2)))"

subsection \<open>The overflow interrupt\<close>

text \<open>
  \<open>mt_mtc_update_count(mtc, i)\<close>, which the handler calls after each fold (line 230), is
  defined outside this file and is not among the sources. It receives the pointer to the
  per-core record and the counter number, and its result is dropped, so it is taken as a
  parameter: a function of the counter number and the state giving the record as the
  call leaves it.
\<close>

type_synonym update_count = "nat \<Rightarrow> machine \<Rightarrow> mt_cpu"

text \<open>
  Lines 224 to 226, the local \<open>prior\<close> for a counter whose last snapshot is \<open>snap\<close>:
  the distance to \<open>CTR_MAX\<close> in 64-bit arithmetic, the assertion, then one more for the wrap.
\<close>

definition pmi_prior :: "u64 \<Rightarrow> error + u64" where
  "pmi_prior snap =
     (let prior = CTR_MAX - snap in
      if \<not> prior \<le> CTR_MAX then Inl (Assert_failed ''prior <= CTR_MAX'')
      else Inr (prior + 1))"

text \<open>Lines 224 to 229: \<open>prior\<close> is added to the count and the snapshot is set to 0.\<close>

definition pmi_fold :: "nat \<Rightarrow> mt_cpu \<Rightarrow> error + mt_cpu" where
  "pmi_fold i mtc =
     (case pmi_prior (mtc_snaps mtc i) of
        Inl e \<Rightarrow> Inl e
      | Inr prior \<Rightarrow>
          Inr (mtc\<lparr>mtc_counts := (mtc_counts mtc)(i := mtc_counts mtc i + prior),
                   mtc_snaps := (mtc_snaps mtc)(i := 0)\<rparr>))"

text \<open>
  The body of the handler's loop for counter \<open>i\<close> (lines 220 to 231). The local
  \<open>fixed_ovf\<close> is set there and never read, so it is left out.
\<close>

definition pmi_body :: "update_count \<Rightarrow> u64 \<Rightarrow> nat \<Rightarrow> machine \<Rightarrow> error + machine" where
  "pmi_body upd status i m =
     (if status AND CTR_FIX_POS i \<noteq> 0 then
        (case pmi_fold i (cpu_monotonic m) of
           Inl e \<Rightarrow> Inl e
         | Inr mtc \<Rightarrow>
             (let m1 = m\<lparr>cpu_monotonic := mtc\<rparr> in
              Inr (m1\<lparr>cpu_monotonic := upd i m1\<rparr>)))
      else Inr m)"

function pmi_loop :: "update_count \<Rightarrow> u64 \<Rightarrow> nat \<Rightarrow> machine \<Rightarrow> error + machine" where
  "pmi_loop upd status i m =
     (if i < MT_CORE_NFIXED then
        (case pmi_body upd status i m of
           Inl e \<Rightarrow> Inl e
         | Inr m' \<Rightarrow> pmi_loop upd status (i + 1) m')
      else Inr m)"
  by pat_completeness auto
termination
  by (relation "measure (\<lambda>(upd, status, i, m). MT_CORE_NFIXED - i)") auto

declare pmi_loop.simps [simp del]

text \<open>
  \<open>mt_pmi_x86_64(state)\<close>: \<open>state\<close> is the pointer to the saved registers, passed on as it
  is. The record \<open>mtc\<close> is the current CPU's, \<open>cpu_monotonic\<close> of the state.
\<close>

definition mt_pmi_x86_64 :: "update_count \<Rightarrow> u64 \<Rightarrow> machine \<Rightarrow> error + (int \<times> machine)" where
  "mt_pmi_x86_64 upd state m =
     (if ml_get_interrupts_enabled m \<noteq> False
        then Inl (Assert_failed ''ml_get_interrupts_enabled() == FALSE'')
      else
        (let status = rdmsr64 GLOBAL_STATUS m;
             m1 = m\<lparr>mt_pmis := mt_pmis m + 1\<rparr>
         in case pmi_loop upd status 0 m1 of
              Inl e \<Rightarrow> Inl e
            | Inr m2 \<Rightarrow>
                Inr (0, if status AND (push_bit 4 1 - 1) \<noteq> 0
                        then kpc_pmi_handler state m2 else m2)))"

subsection \<open>Initialisation\<close>

text \<open>\<open>mt_init\<close>; \<open>eax\<close> is \<open>cpuinfo[0]\<close> as \<open>do_cpuid(0xA, cpuinfo)\<close> fills it.\<close>

definition mt_init :: "u32 \<Rightarrow> machine \<Rightarrow> machine" where
  "mt_init eax m =
     (if (eax AND 0xff) \<ge> 2
      then m\<lparr>trace := trace m @ [Lapic_set_pmi_func], mt_core_supported := True\<rparr>
      else m)"

subsection \<open>Sequences of operations\<close>

text \<open>
  The entry points of the file, and a step of the surroundings: the hardware changes what
  it answers to reads, and the interrupt flag changes.
\<close>

datatype op =
    Core_snap u32
  | Core_set_snap u32 u64
  | Cpu_down
  | Cpu_up
  | Pmi u64
  | Init u32
  | Surroundings "u32 \<Rightarrow> u64" "u64 \<Rightarrow> u64" bool

fun exec ::
  "update_count \<Rightarrow> update_fixed_counts \<Rightarrow> u32 \<Rightarrow> op \<Rightarrow> machine \<Rightarrow> error + machine" where
  "exec upd flush fixed_ctr0 (Core_snap ctr) m =
     (case mt_core_snap ctr m of Inl e \<Rightarrow> Inl e | Inr v \<Rightarrow> Inr m)"
| "exec upd flush fixed_ctr0 (Core_set_snap ctr count) m =
     mt_core_set_snap fixed_ctr0 ctr count m"
| "exec upd flush fixed_ctr0 Cpu_down m = mt_cpu_down flush m"
| "exec upd flush fixed_ctr0 Cpu_up m = mt_cpu_up fixed_ctr0 m"
| "exec upd flush fixed_ctr0 (Pmi state) m =
     (case mt_pmi_x86_64 upd state m of Inl e \<Rightarrow> Inl e | Inr (r, m') \<Rightarrow> Inr m')"
| "exec upd flush fixed_ctr0 (Init eax) m = Inr (mt_init eax m)"
| "exec upd flush fixed_ctr0 (Surroundings msr pmc en) m =
     Inr (m\<lparr>msr_value := msr, pmc_value := pmc, intrs_enabled := en\<rparr>)"

fun run ::
  "update_count \<Rightarrow> update_fixed_counts \<Rightarrow> u32 \<Rightarrow> op list \<Rightarrow> machine \<Rightarrow> error + machine" where
  "run upd flush fixed_ctr0 [] m = Inr m"
| "run upd flush fixed_ctr0 (x # xs) m =
     (case exec upd flush fixed_ctr0 x m of
        Inl e \<Rightarrow> Inl e
      | Inr m' \<Rightarrow> run upd flush fixed_ctr0 xs m')"

text \<open>The operations that add to a count: the overflow interrupt and the shutdown.\<close>

fun folds :: "op \<Rightarrow> bool" where
  "folds (Pmi state) = True"
| "folds Cpu_down = True"
| "folds x = False"

subsection \<open>What a theorem may ask of the absent helpers\<close>

text \<open>The call for counter \<open>i\<close> leaves both arrays of the record as they are.\<close>

definition keeps_record :: "update_count \<Rightarrow> bool" where
  "keeps_record upd = (\<forall>i m. upd i m = cpu_monotonic m)"

text \<open>The call leaves the counts as they are (it may change snapshots).\<close>

definition keeps_counts :: "update_count \<Rightarrow> bool" where
  "keeps_counts upd = (\<forall>i m. mtc_counts (upd i m) = mtc_counts (cpu_monotonic m))"

text \<open>The call for counter \<open>i\<close> leaves the entries of every other counter as they are.\<close>

definition keeps_others :: "update_count \<Rightarrow> bool" where
  "keeps_others upd =
     (\<forall>i m k. k \<noteq> i \<longrightarrow>
        mtc_counts (upd i m) k = mtc_counts (cpu_monotonic m) k \<and>
        mtc_snaps (upd i m) k = mtc_snaps (cpu_monotonic m) k)"

text \<open>
  The flush of the shutdown adds to each count what a 48-bit counter can have counted
  since its snapshot, at most \<open>2^48\<close>.
\<close>

definition adds_a_wrap_at_most :: "update_fixed_counts \<Rightarrow> bool" where
  "adds_a_wrap_at_most flush =
     (\<forall>m k. \<exists>d. unat d \<le> 2 ^ 48 \<and>
        mtc_counts (flush m) k = mtc_counts (cpu_monotonic m) k + d)"

text \<open>Everything of the state but the per-core record is the same in \<open>m\<close> and \<open>m'\<close>.\<close>

definition same_outside :: "machine \<Rightarrow> machine \<Rightarrow> bool" where
  "same_outside m m' =
     (mt_core_supported m' = mt_core_supported m \<and> mt_pmis m' = mt_pmis m \<and>
      intrs_enabled m' = intrs_enabled m \<and> msr_value m' = msr_value m \<and>
      pmc_value m' = pmc_value m \<and> trace m' = trace m)"

subsection \<open>Concrete states\<close>

text \<open>A helper that returns the record as it finds it.\<close>

definition untouched :: update_count where
  "untouched i m = cpu_monotonic m"

text \<open>A flush that returns the record as it finds it.\<close>

definition unflushed :: update_fixed_counts where
  "unflushed m = cpu_monotonic m"

text \<open>Before \<open>mt_init\<close>: nothing supported, everything zero, interrupts off.\<close>

definition quiet :: machine where
  "quiet = \<lparr>mt_core_supported = False, mt_pmis = 0,
            cpu_monotonic = \<lparr>mtc_snaps = (\<lambda>i. 0), mtc_counts = (\<lambda>i. 0)\<rparr>,
            intrs_enabled = False, msr_value = (\<lambda>a. 0), pmc_value = (\<lambda>s. 0), trace = []\<rparr>"

text \<open>
  A supported core at the entry of the handler: interrupts off, \<open>GLOBAL_STATUS\<close> reading
  \<open>status\<close>, the given snapshots and counts, an empty log.
\<close>

definition pmi_state :: "u64 \<Rightarrow> (nat \<Rightarrow> u64) \<Rightarrow> (nat \<Rightarrow> u64) \<Rightarrow> machine" where
  "pmi_state status snaps counts =
     \<lparr>mt_core_supported = True, mt_pmis = 0,
      cpu_monotonic = \<lparr>mtc_snaps = snaps, mtc_counts = counts\<rparr>,
      intrs_enabled = False, msr_value = (\<lambda>a. if a = GLOBAL_STATUS then status else 0),
      pmc_value = (\<lambda>s. 0), trace = []\<rparr>"

text \<open>Counters 0 and 2 overflowed, with snapshots 10 and \<open>2^48 - 5\<close>; every count is 100.\<close>

definition two_overflows :: machine where
  "two_overflows =
     pmi_state (CTR_FIX_POS 0 OR CTR_FIX_POS 2) (\<lambda>i. if i = 0 then 10 else 2 ^ 48 - 5) (\<lambda>i. 100)"

text \<open>Counter 0 overflowed from snapshot 0 while its count is \<open>2^64 - 1\<close>.\<close>

definition accumulator_full :: machine where
  "accumulator_full = pmi_state (CTR_FIX_POS 0) (\<lambda>i. 0) (\<lambda>i. 0xFFFFFFFFFFFFFFFF)"

text \<open>Counter 0 overflowed from snapshot 0, every count 0.\<close>

definition fresh_overflow :: machine where
  "fresh_overflow = pmi_state (CTR_FIX_POS 0) (\<lambda>i. 0) (\<lambda>i. 0)"

text \<open>Counter 1 overflowed with a snapshot of \<open>2^48\<close>, one more than \<open>CTR_MAX\<close>.\<close>

definition bad_snapshot :: machine where
  "bad_snapshot = pmi_state (CTR_FIX_POS 1) (\<lambda>i. 2 ^ 48) (\<lambda>i. 0)"

text \<open>Only counter 1 overflowed, from snapshot \<open>2^48 - 5\<close>; every count is 100.\<close>

definition five_below :: machine where
  "five_below = pmi_state (CTR_FIX_POS 1) (\<lambda>i. 2 ^ 48 - 5) (\<lambda>i. 100)"

text \<open>Three configurable counters (bits 0, 1 and 3) and fixed counter 1 overflowed.\<close>

definition configurable_overflow :: machine where
  "configurable_overflow = pmi_state (0xb OR CTR_FIX_POS 1) (\<lambda>i. 7) (\<lambda>i. 100)"

text \<open>A supported core about to start, interrupts on, snapshots 40, 41, 42.\<close>

definition parked :: machine where
  "parked = (pmi_state 0 (\<lambda>i. 40 + of_nat i) (\<lambda>i. 0))\<lparr>intrs_enabled := True\<rparr>"

text \<open>\<open>accumulator_full\<close> after the handler: the count of counter 0 is \<open>2^48 - 1\<close>.\<close>

definition accumulator_wrapped :: machine where
  "accumulator_wrapped =
     (pmi_state (CTR_FIX_POS 0) (\<lambda>i. 0)
        (\<lambda>i. if i = 0 then 0xFFFFFFFFFFFF else 0xFFFFFFFFFFFFFFFF))\<lparr>mt_pmis := 1\<rparr>"

text \<open>\<open>fresh_overflow\<close> after the handler: the count of counter 0 is \<open>2^48\<close>.\<close>

definition fresh_folded :: machine where
  "fresh_folded =
     (pmi_state (CTR_FIX_POS 0) (\<lambda>i. 0) (\<lambda>i. if i = 0 then 0x1000000000000 else 0))
       \<lparr>mt_pmis := 1\<rparr>"

text \<open>\<open>five_below\<close> after the handler: counter 1 has count 105 and snapshot 0.\<close>

definition five_folded :: machine where
  "five_folded =
     (pmi_state (CTR_FIX_POS 1) (\<lambda>i. if i = 1 then 0 else 2 ^ 48 - 5)
        (\<lambda>i. if i = 1 then 105 else 100))\<lparr>mt_pmis := 1\<rparr>"

text \<open>
  A short life of a core: initialisation on hardware of version 2, startup, the hardware
  flags an overflow of counter 0 with interrupts off, the handler runs, counter 0 is read,
  shutdown.
\<close>

definition boot_then_overflow :: "op list" where
  "boot_then_overflow =
     [Init 2, Cpu_up,
      Surroundings (\<lambda>a. if a = GLOBAL_STATUS then CTR_FIX_POS 0 else 0) (\<lambda>s. 0) False,
      Pmi 0, Core_snap 0, Cpu_down]"

text \<open>The state \<open>quiet\<close> is in after that.\<close>

definition after_boot_overflow :: machine where
  "after_boot_overflow =
     (pmi_state (CTR_FIX_POS 0) (\<lambda>i. 0) (\<lambda>i. if i = 0 then 0x1000000000000 else 0))
       \<lparr>mt_pmis := 1,
        trace := [Lapic_set_pmi_func, Ml_set_interrupts_enabled False,
                  Wrmsr64 0x309 0, Wrmsr64 0x30a 0, Wrmsr64 0x30b 0,
                  Wrmsr64 0x38d 0xbbb, Wrmsr64 0x38f 0x700000000,
                  Ml_set_interrupts_enabled False, Wrmsr64 0x38f 0]\<rparr>"

section \<open>Lemmas\<close>

text \<open>
  Facts about the pieces, shared by the properties below: the arithmetic of \<open>prior\<close>,
  the three iterations of each loop written out, what one iteration of the handler's loop
  leaves alone, and when the handler returns.
\<close>

lemma CTR_MAX_val: "CTR_MAX = 0xFFFFFFFFFFFF"
  by (simp add: CTR_MAX_def)

lemma unat_CTR_MAX: "unat CTR_MAX = 2 ^ 48 - 1"
  by (simp add: CTR_MAX_def)

lemma unat_u64_less: "unat (w :: u64) < 18446744073709551616"
  using unsigned_less [of w, where 'a = nat] by simp

lemma prior_le_iff: "(CTR_MAX - snap \<le> CTR_MAX) = (snap \<le> CTR_MAX)"
  using unat_u64_less [of snap]
  by (simp add: CTR_MAX_val word_le_nat_alt unat_sub_if') arith

lemma unat_prior: "snap \<le> CTR_MAX \<Longrightarrow> unat (CTR_MAX - snap + 1) = 2 ^ 48 - unat snap"
  using unat_u64_less [of snap]
  by (simp add: CTR_MAX_val word_le_nat_alt unat_sub_if' unat_word_ariths)

lemma pmi_prior_ok: "snap \<le> CTR_MAX \<Longrightarrow> pmi_prior snap = Inr (CTR_MAX - snap + 1)"
  by (simp add: pmi_prior_def prior_le_iff)

lemma pmi_prior_fail:
  "\<not> snap \<le> CTR_MAX \<Longrightarrow> pmi_prior snap = Inl (Assert_failed ''prior <= CTR_MAX'')"
  by (simp add: pmi_prior_def prior_le_iff)

lemma pmi_loop_unroll:
  "pmi_loop upd status 0 m =
     (case pmi_body upd status 0 m of Inl e \<Rightarrow> Inl e
      | Inr m1 \<Rightarrow> (case pmi_body upd status 1 m1 of Inl e \<Rightarrow> Inl e
      | Inr m2 \<Rightarrow> pmi_body upd status 2 m2))"
  by (simp add: pmi_loop.simps [of _ _ 0] pmi_loop.simps [of _ _ "Suc 0"]
       pmi_loop.simps [of _ _ "Suc (Suc 0)"] pmi_loop.simps [of _ _ "Suc (Suc (Suc 0))"]
       MT_CORE_NFIXED_def numeral_2_eq_2 split: sum.splits)

lemma core_up_loop_unroll:
  "core_up_loop f0 0 m =
     (case mt_core_set_snap f0 0 (mtc_snaps (cpu_monotonic m) 0) m of Inl e \<Rightarrow> Inl e
      | Inr m1 \<Rightarrow> (case mt_core_set_snap f0 1 (mtc_snaps (cpu_monotonic m1) 1) m1 of Inl e \<Rightarrow> Inl e
      | Inr m2 \<Rightarrow> mt_core_set_snap f0 2 (mtc_snaps (cpu_monotonic m2) 2) m2))"
  by (simp add: core_up_loop.simps [of _ 0] core_up_loop.simps [of _ "Suc 0"]
       core_up_loop.simps [of _ "Suc (Suc 0)"] core_up_loop.simps [of _ "Suc (Suc (Suc 0))"]
       MT_CORE_NFIXED_def numeral_2_eq_2 split: sum.splits)

lemma pmi_fold_ok:
  "mtc_snaps mtc i \<le> CTR_MAX \<Longrightarrow>
   pmi_fold i mtc =
     Inr (mtc\<lparr>mtc_counts := (mtc_counts mtc)(i := mtc_counts mtc i + (CTR_MAX - mtc_snaps mtc i + 1)),
              mtc_snaps := (mtc_snaps mtc)(i := 0)\<rparr>)"
  by (simp add: pmi_fold_def pmi_prior_ok)

lemma pmi_fold_fail:
  "\<not> mtc_snaps mtc i \<le> CTR_MAX \<Longrightarrow> pmi_fold i mtc = Inl (Assert_failed ''prior <= CTR_MAX'')"
  by (simp add: pmi_fold_def pmi_prior_fail)

lemma pmi_fold_Inl:
  "pmi_fold i mtc = Inl e \<Longrightarrow> e = Assert_failed ''prior <= CTR_MAX''"
  by (cases "mtc_snaps mtc i \<le> CTR_MAX") (auto simp: pmi_fold_ok pmi_fold_fail)

lemma pmi_body_frame:
  "pmi_body upd status i m = Inr m' \<Longrightarrow> same_outside m m'"
  by (auto simp: pmi_body_def same_outside_def Let_def split: if_splits sum.splits)

lemma pmi_body_Inl:
  "pmi_body upd status i m = Inl e \<Longrightarrow> e = Assert_failed ''prior <= CTR_MAX''"
  by (auto simp: pmi_body_def Let_def split: if_splits sum.splits dest: pmi_fold_Inl)

lemma pmi_loop_frame:
  assumes "pmi_loop upd status 0 m = Inr m'"
  shows "same_outside m m'"
proof -
  from assms obtain m1 m2 where
    b0: "pmi_body upd status 0 m = Inr m1" and
    b1: "pmi_body upd status 1 m1 = Inr m2" and
    b2: "pmi_body upd status 2 m2 = Inr m'"
    by (auto simp: pmi_loop_unroll split: sum.splits)
  have "same_outside m m1" using b0 by (rule pmi_body_frame)
  moreover have "same_outside m1 m2" using b1 by (rule pmi_body_frame)
  moreover have "same_outside m2 m'" using b2 by (rule pmi_body_frame)
  ultimately show ?thesis
    by (simp add: same_outside_def)
qed

lemma pmi_loop_Inl:
  "pmi_loop upd status 0 m = Inl e \<Longrightarrow> e = Assert_failed ''prior <= CTR_MAX''"
  by (auto simp: pmi_loop_unroll split: sum.splits dest: pmi_body_Inl)

lemma pmi_body_skip:
  "status AND CTR_FIX_POS i = 0 \<Longrightarrow> pmi_body upd status i m = Inr m"
  by (simp add: pmi_body_def)

lemma pmi_body_ok:
  "status AND CTR_FIX_POS i \<noteq> 0 \<Longrightarrow> mtc_snaps (cpu_monotonic m) i \<le> CTR_MAX \<Longrightarrow>
   pmi_body upd status i m =
     Inr (m\<lparr>cpu_monotonic :=
            upd i (m\<lparr>cpu_monotonic :=
              (cpu_monotonic m)\<lparr>mtc_counts := (mtc_counts (cpu_monotonic m))
                   (i := mtc_counts (cpu_monotonic m) i + (CTR_MAX - mtc_snaps (cpu_monotonic m) i + 1)),
                 mtc_snaps := (mtc_snaps (cpu_monotonic m))(i := 0)\<rparr>\<rparr>)\<rparr>)"
  by (simp add: pmi_body_def pmi_fold_ok Let_def)

lemma pmi_body_fail:
  "status AND CTR_FIX_POS i \<noteq> 0 \<Longrightarrow> \<not> mtc_snaps (cpu_monotonic m) i \<le> CTR_MAX \<Longrightarrow>
   pmi_body upd status i m = Inl (Assert_failed ''prior <= CTR_MAX'')"
  by (simp add: pmi_body_def pmi_fold_fail)

lemma pmi_body_others:
  assumes "keeps_others upd" and "pmi_body upd status i m = Inr m'" and "k \<noteq> i"
  shows "mtc_counts (cpu_monotonic m') k = mtc_counts (cpu_monotonic m) k \<and>
         mtc_snaps (cpu_monotonic m') k = mtc_snaps (cpu_monotonic m) k"
proof (cases "status AND CTR_FIX_POS i = 0")
  case True
  with assms(2) show ?thesis by (simp add: pmi_body_skip)
next
  case False
  show ?thesis
  proof (cases "mtc_snaps (cpu_monotonic m) i \<le> CTR_MAX")
    case True
    from assms(1) assms(3) have
      "\<And>x. mtc_counts (upd i x) k = mtc_counts (cpu_monotonic x) k \<and>
            mtc_snaps (upd i x) k = mtc_snaps (cpu_monotonic x) k"
      by (simp add: keeps_others_def)
    with assms(2) assms(3) False True show ?thesis
      by (auto simp: pmi_body_ok)
  next
    case False
    with \<open>status AND CTR_FIX_POS i \<noteq> 0\<close> assms(2) show ?thesis
      by (simp add: pmi_body_fail)
  qed
qed

lemma pmi_body_returns:
  "status AND CTR_FIX_POS i \<noteq> 0 \<longrightarrow> mtc_snaps (cpu_monotonic m) i \<le> CTR_MAX \<Longrightarrow>
   \<exists>m'. pmi_body upd status i m = Inr m'"
  by (cases "status AND CTR_FIX_POS i = 0") (simp_all add: pmi_body_skip pmi_body_ok)

lemma pmi_loop_returns:
  assumes ko: "keeps_others upd"
    and ok: "\<forall>i<MT_CORE_NFIXED. status AND CTR_FIX_POS i \<noteq> 0 \<longrightarrow>
               mtc_snaps (cpu_monotonic m) i \<le> CTR_MAX"
  shows "\<exists>m1 m2 m'. pmi_body upd status 0 m = Inr m1 \<and> pmi_body upd status 1 m1 = Inr m2 \<and>
           pmi_body upd status 2 m2 = Inr m' \<and> pmi_loop upd status 0 m = Inr m'"
proof -
  from ok have ok0: "status AND CTR_FIX_POS 0 \<noteq> 0 \<longrightarrow> mtc_snaps (cpu_monotonic m) 0 \<le> CTR_MAX"
    and ok1: "status AND CTR_FIX_POS 1 \<noteq> 0 \<longrightarrow> mtc_snaps (cpu_monotonic m) 1 \<le> CTR_MAX"
    and ok2: "status AND CTR_FIX_POS 2 \<noteq> 0 \<longrightarrow> mtc_snaps (cpu_monotonic m) 2 \<le> CTR_MAX"
    by (simp_all add: MT_CORE_NFIXED_def)
  from pmi_body_returns [OF ok0] obtain m1 where b0: "pmi_body upd status 0 m = Inr m1" by blast
  have "mtc_snaps (cpu_monotonic m1) 1 = mtc_snaps (cpu_monotonic m) 1"
    using pmi_body_others [OF ko b0, of 1] by simp
  with ok1 have "status AND CTR_FIX_POS 1 \<noteq> 0 \<longrightarrow> mtc_snaps (cpu_monotonic m1) 1 \<le> CTR_MAX"
    by simp
  from pmi_body_returns [OF this] obtain m2 where b1: "pmi_body upd status 1 m1 = Inr m2" by blast
  have "mtc_snaps (cpu_monotonic m2) 2 = mtc_snaps (cpu_monotonic m) 2"
    using pmi_body_others [OF ko b0, of 2] pmi_body_others [OF ko b1, of 2] by simp
  with ok2 have "status AND CTR_FIX_POS 2 \<noteq> 0 \<longrightarrow> mtc_snaps (cpu_monotonic m2) 2 \<le> CTR_MAX"
    by simp
  from pmi_body_returns [OF this] obtain m' where b2: "pmi_body upd status 2 m2 = Inr m'" by blast
  from b0 b1 b2 show ?thesis by (simp add: pmi_loop_unroll)
qed

lemma mt_pmi_Inr:
  assumes "mt_pmi_x86_64 upd state m = Inr (r, m')"
  shows "r = 0 \<and> \<not> intrs_enabled m \<and>
         mt_core_supported m' = mt_core_supported m \<and> mt_pmis m' = mt_pmis m + 1 \<and>
         intrs_enabled m' = intrs_enabled m \<and> msr_value m' = msr_value m \<and>
         pmc_value m' = pmc_value m \<and>
         trace m' = trace m @
           (if msr_value m GLOBAL_STATUS AND (push_bit 4 1 - 1) \<noteq> 0
            then [Kpc_pmi_handler state] else [])"
proof -
  from assms have en: "\<not> intrs_enabled m"
    by (auto simp: mt_pmi_x86_64_def ml_get_interrupts_enabled_def split: if_splits)
  with assms obtain m2 where
    lp: "pmi_loop upd (msr_value m GLOBAL_STATUS) 0 (m\<lparr>mt_pmis := mt_pmis m + 1\<rparr>) = Inr m2"
    and res: "r = 0" "m' = (if msr_value m GLOBAL_STATUS AND (push_bit 4 1 - 1) \<noteq> 0
                   then kpc_pmi_handler state m2 else m2)"
    by (auto simp: mt_pmi_x86_64_def ml_get_interrupts_enabled_def rdmsr64_def Let_def
             split: sum.splits)
  from pmi_loop_frame [OF lp] have "same_outside (m\<lparr>mt_pmis := mt_pmis m + 1\<rparr>) m2" .
  with res en show ?thesis
    by (simp add: same_outside_def kpc_pmi_handler_def)
qed

lemma mt_pmi_returns:
  assumes "\<not> intrs_enabled m" and "keeps_others upd"
    and "\<forall>i<MT_CORE_NFIXED. msr_value m GLOBAL_STATUS AND CTR_FIX_POS i \<noteq> 0 \<longrightarrow>
               mtc_snaps (cpu_monotonic m) i \<le> CTR_MAX"
  shows "\<exists>m'. mt_pmi_x86_64 upd state m = Inr (0, m')"
proof -
  from assms(3) have "\<forall>i<MT_CORE_NFIXED. msr_value m GLOBAL_STATUS AND CTR_FIX_POS i \<noteq> 0 \<longrightarrow>
      mtc_snaps (cpu_monotonic (m\<lparr>mt_pmis := mt_pmis m + 1\<rparr>)) i \<le> CTR_MAX"
    by simp
  from pmi_loop_returns [OF assms(2) this] obtain m2 where
    "pmi_loop upd (msr_value m GLOBAL_STATUS) 0 (m\<lparr>mt_pmis := mt_pmis m + 1\<rparr>) = Inr m2"
    by blast
  with assms(1) show ?thesis
    by (simp add: mt_pmi_x86_64_def ml_get_interrupts_enabled_def rdmsr64_def Let_def)
qed

lemma keeps_record_others: "keeps_record upd \<Longrightarrow> keeps_others upd"
  by (simp add: keeps_record_def keeps_others_def)

lemma pmi_body_unflagged:
  assumes "keeps_others upd" and "pmi_body upd status i m = Inr m'"
    and "k = i \<longrightarrow> status AND CTR_FIX_POS k = 0"
  shows "mtc_counts (cpu_monotonic m') k = mtc_counts (cpu_monotonic m) k \<and>
         mtc_snaps (cpu_monotonic m') k = mtc_snaps (cpu_monotonic m) k"
proof (cases "k = i")
  case True
  with assms(2) assms(3) show ?thesis by (simp add: pmi_body_skip)
next
  case False
  with assms(1) assms(2) show ?thesis by (rule pmi_body_others)
qed

lemma pmi_body_flagged:
  assumes "keeps_record upd" and "pmi_body upd status i m = Inr m'"
    and "status AND CTR_FIX_POS i \<noteq> 0"
  shows "mtc_snaps (cpu_monotonic m) i \<le> CTR_MAX \<and>
         mtc_counts (cpu_monotonic m') i =
           mtc_counts (cpu_monotonic m) i + (CTR_MAX - mtc_snaps (cpu_monotonic m) i + 1) \<and>
         mtc_snaps (cpu_monotonic m') i = 0"
proof (cases "mtc_snaps (cpu_monotonic m) i \<le> CTR_MAX")
  case True
  from assms(1) have "\<And>x. upd i x = cpu_monotonic x" by (simp add: keeps_record_def)
  with assms(2) assms(3) True show ?thesis by (auto simp: pmi_body_ok)
next
  case False
  with assms(2) assms(3) show ?thesis by (simp add: pmi_body_fail)
qed

lemma pmi_body_flagged_counts:
  assumes "keeps_counts upd" and "pmi_body upd status i m = Inr m'"
    and "status AND CTR_FIX_POS i \<noteq> 0"
  shows "mtc_snaps (cpu_monotonic m) i \<le> CTR_MAX \<and>
         mtc_counts (cpu_monotonic m') i =
           mtc_counts (cpu_monotonic m) i + (CTR_MAX - mtc_snaps (cpu_monotonic m) i + 1)"
proof (cases "mtc_snaps (cpu_monotonic m) i \<le> CTR_MAX")
  case True
  from assms(1) have "\<And>x. mtc_counts (upd i x) = mtc_counts (cpu_monotonic x)"
    by (simp add: keeps_counts_def)
  with assms(2) assms(3) True show ?thesis by (auto simp: pmi_body_ok)
next
  case False
  with assms(2) assms(3) show ?thesis by (simp add: pmi_body_fail)
qed

lemma mt_pmi_bodies:
  assumes "mt_pmi_x86_64 upd state m = Inr (r, m')"
  shows "\<exists>m1 m2 m3.
           pmi_body upd (msr_value m GLOBAL_STATUS) 0 (m\<lparr>mt_pmis := mt_pmis m + 1\<rparr>) = Inr m1 \<and>
           pmi_body upd (msr_value m GLOBAL_STATUS) 1 m1 = Inr m2 \<and>
           pmi_body upd (msr_value m GLOBAL_STATUS) 2 m2 = Inr m3 \<and>
           cpu_monotonic m' = cpu_monotonic m3"
proof -
  from assms obtain m3 where
    lp: "pmi_loop upd (msr_value m GLOBAL_STATUS) 0 (m\<lparr>mt_pmis := mt_pmis m + 1\<rparr>) = Inr m3"
    and res: "m' = (if msr_value m GLOBAL_STATUS AND (push_bit 4 1 - 1) \<noteq> 0
                   then kpc_pmi_handler state m3 else m3)"
    by (auto simp: mt_pmi_x86_64_def rdmsr64_def Let_def split: if_splits sum.splits)
  from res have "cpu_monotonic m' = cpu_monotonic m3" by (simp add: kpc_pmi_handler_def)
  with lp show ?thesis by (auto simp: pmi_loop_unroll split: sum.splits)
qed

lemma mt_pmi_unflagged:
  assumes ko: "keeps_others upd" and run: "mt_pmi_x86_64 upd state m = Inr (r, m')"
    and clear: "k < MT_CORE_NFIXED \<longrightarrow> msr_value m GLOBAL_STATUS AND CTR_FIX_POS k = 0"
  shows "mtc_counts (cpu_monotonic m') k = mtc_counts (cpu_monotonic m) k \<and>
         mtc_snaps (cpu_monotonic m') k = mtc_snaps (cpu_monotonic m) k"
proof -
  from mt_pmi_bodies [OF run] obtain m1 m2 m3 where
    b0: "pmi_body upd (msr_value m GLOBAL_STATUS) 0 (m\<lparr>mt_pmis := mt_pmis m + 1\<rparr>) = Inr m1" and
    b1: "pmi_body upd (msr_value m GLOBAL_STATUS) 1 m1 = Inr m2" and
    b2: "pmi_body upd (msr_value m GLOBAL_STATUS) 2 m2 = Inr m3" and
    eq: "cpu_monotonic m' = cpu_monotonic m3"
    by blast
  from clear have c: "k = 0 \<longrightarrow> msr_value m GLOBAL_STATUS AND CTR_FIX_POS k = 0"
    "k = 1 \<longrightarrow> msr_value m GLOBAL_STATUS AND CTR_FIX_POS k = 0"
    "k = 2 \<longrightarrow> msr_value m GLOBAL_STATUS AND CTR_FIX_POS k = 0"
    by (auto simp: MT_CORE_NFIXED_def)
  from pmi_body_unflagged [OF ko b0 c(1)] pmi_body_unflagged [OF ko b1 c(2)]
    pmi_body_unflagged [OF ko b2 c(3)] eq
  show ?thesis by simp
qed

lemma mt_pmi_flagged:
  assumes kr: "keeps_record upd" and run: "mt_pmi_x86_64 upd state m = Inr (r, m')"
    and k: "k < MT_CORE_NFIXED" and flag: "msr_value m GLOBAL_STATUS AND CTR_FIX_POS k \<noteq> 0"
  shows "mtc_snaps (cpu_monotonic m) k \<le> CTR_MAX \<and>
         mtc_counts (cpu_monotonic m') k =
           mtc_counts (cpu_monotonic m) k + (CTR_MAX - mtc_snaps (cpu_monotonic m) k + 1) \<and>
         mtc_snaps (cpu_monotonic m') k = 0"
proof -
  note ko = keeps_record_others [OF kr]
  from mt_pmi_bodies [OF run] obtain m1 m2 m3 where
    b0: "pmi_body upd (msr_value m GLOBAL_STATUS) 0 (m\<lparr>mt_pmis := mt_pmis m + 1\<rparr>) = Inr m1" and
    b1: "pmi_body upd (msr_value m GLOBAL_STATUS) 1 m1 = Inr m2" and
    b2: "pmi_body upd (msr_value m GLOBAL_STATUS) 2 m2 = Inr m3" and
    eq: "cpu_monotonic m' = cpu_monotonic m3"
    by blast
  from k have "k = 0 \<or> k = 1 \<or> k = 2" unfolding MT_CORE_NFIXED_def by arith
  then consider "k = 0" | "k = 1" | "k = 2" by blast
  then show ?thesis
  proof cases
    case 1
    from pmi_body_flagged [OF kr b0] flag 1
      pmi_body_others [OF ko b1, of 0] pmi_body_others [OF ko b2, of 0] eq
    show ?thesis by simp
  next
    case 2
    from pmi_body_others [OF ko b0, of 1] pmi_body_flagged [OF kr b1] flag 2
      pmi_body_others [OF ko b2, of 1] eq
    show ?thesis by simp
  next
    case 3
    from pmi_body_others [OF ko b0, of 2] pmi_body_others [OF ko b1, of 2]
      pmi_body_flagged [OF kr b2] flag 3 eq
    show ?thesis by simp
  qed
qed

lemma mt_pmi_flagged_counts:
  assumes kc: "keeps_counts upd" and ko: "keeps_others upd"
    and run: "mt_pmi_x86_64 upd state m = Inr (r, m')"
    and k: "k < MT_CORE_NFIXED" and flag: "msr_value m GLOBAL_STATUS AND CTR_FIX_POS k \<noteq> 0"
  shows "mtc_snaps (cpu_monotonic m) k \<le> CTR_MAX \<and>
         mtc_counts (cpu_monotonic m') k =
           mtc_counts (cpu_monotonic m) k + (CTR_MAX - mtc_snaps (cpu_monotonic m) k + 1)"
proof -
  from mt_pmi_bodies [OF run] obtain m1 m2 m3 where
    b0: "pmi_body upd (msr_value m GLOBAL_STATUS) 0 (m\<lparr>mt_pmis := mt_pmis m + 1\<rparr>) = Inr m1" and
    b1: "pmi_body upd (msr_value m GLOBAL_STATUS) 1 m1 = Inr m2" and
    b2: "pmi_body upd (msr_value m GLOBAL_STATUS) 2 m2 = Inr m3" and
    eq: "cpu_monotonic m' = cpu_monotonic m3"
    by blast
  from k have "k = 0 \<or> k = 1 \<or> k = 2" unfolding MT_CORE_NFIXED_def by arith
  then consider "k = 0" | "k = 1" | "k = 2" by blast
  then show ?thesis
  proof cases
    case 1
    from pmi_body_flagged_counts [OF kc b0] flag 1
      pmi_body_others [OF ko b1, of 0] pmi_body_others [OF ko b2, of 0] eq
    show ?thesis by simp
  next
    case 2
    from pmi_body_others [OF ko b0, of 1] pmi_body_flagged_counts [OF kc b1] flag 2
      pmi_body_others [OF ko b2, of 1] eq
    show ?thesis by simp
  next
    case 3
    from pmi_body_others [OF ko b0, of 2] pmi_body_others [OF ko b1, of 2]
      pmi_body_flagged_counts [OF kc b2] flag 3 eq
    show ?thesis by simp
  qed
qed

lemma mt_pmi_Inl_prior:
  assumes "\<not> intrs_enabled m" and "mt_pmi_x86_64 upd state m = Inl e"
  shows "e = Assert_failed ''prior <= CTR_MAX''"
  using assms
  by (auto simp: mt_pmi_x86_64_def ml_get_interrupts_enabled_def Let_def
           split: if_splits sum.splits dest: pmi_loop_Inl)

lemma mt_pmi_snaps_checked:
  assumes ko: "keeps_others upd" and run: "mt_pmi_x86_64 upd state m = Inr (r, m')"
    and k: "k < MT_CORE_NFIXED" and flag: "msr_value m GLOBAL_STATUS AND CTR_FIX_POS k \<noteq> 0"
  shows "mtc_snaps (cpu_monotonic m) k \<le> CTR_MAX"
proof (rule ccontr)
  assume bad: "\<not> mtc_snaps (cpu_monotonic m) k \<le> CTR_MAX"
  from mt_pmi_bodies [OF run] obtain m1 m2 m3 where
    b0: "pmi_body upd (msr_value m GLOBAL_STATUS) 0 (m\<lparr>mt_pmis := mt_pmis m + 1\<rparr>) = Inr m1" and
    b1: "pmi_body upd (msr_value m GLOBAL_STATUS) 1 m1 = Inr m2" and
    b2: "pmi_body upd (msr_value m GLOBAL_STATUS) 2 m2 = Inr m3"
    by blast
  from k have "k = 0 \<or> k = 1 \<or> k = 2" unfolding MT_CORE_NFIXED_def by arith
  then consider "k = 0" | "k = 1" | "k = 2" by blast
  then show False
  proof cases
    case 1
    with bad flag b0 show False by (simp add: pmi_body_fail)
  next
    case 2
    from pmi_body_others [OF ko b0, of 1] bad 2
    have "\<not> mtc_snaps (cpu_monotonic m1) 1 \<le> CTR_MAX" by simp
    with flag 2 b1 show False by (simp add: pmi_body_fail)
  next
    case 3
    from pmi_body_others [OF ko b0, of 2] pmi_body_others [OF ko b1, of 2] bad 3
    have "\<not> mtc_snaps (cpu_monotonic m2) 2 \<le> CTR_MAX" by simp
    with flag 3 b2 show False by (simp add: pmi_body_fail)
  qed
qed

lemma mt_pmi_assert_prior:
  assumes "keeps_others upd" and "\<not> intrs_enabled m" and "k < MT_CORE_NFIXED"
    and "msr_value m GLOBAL_STATUS AND CTR_FIX_POS k \<noteq> 0"
    and "\<not> mtc_snaps (cpu_monotonic m) k \<le> CTR_MAX"
  shows "mt_pmi_x86_64 upd state m = Inl (Assert_failed ''prior <= CTR_MAX'')"
proof (cases "mt_pmi_x86_64 upd state m")
  case (Inl e)
  with mt_pmi_Inl_prior [OF assms(2)] show ?thesis by simp
next
  case (Inr p)
  obtain r m' where "p = (r, m')" by (cases p)
  with Inr have "mt_pmi_x86_64 upd state m = Inr (r, m')" by simp
  from mt_pmi_snaps_checked [OF assms(1) this assms(3) assms(4)] assms(5)
  show ?thesis by simp
qed

lemma core_up_loop_trace:
  "mt_core_supported m \<Longrightarrow>
   core_up_loop fixed_ctr0 0 m =
     Inr (m\<lparr>trace := trace m @
            [Wrmsr64 (PMC_FIXED_WR fixed_ctr0 0) (mtc_snaps (cpu_monotonic m) 0),
             Wrmsr64 (PMC_FIXED_WR fixed_ctr0 1) (mtc_snaps (cpu_monotonic m) 1),
             Wrmsr64 (PMC_FIXED_WR fixed_ctr0 2) (mtc_snaps (cpu_monotonic m) 2)]\<rparr>)"
  by (simp add: core_up_loop_unroll mt_core_set_snap_def wrmsr64_def)

lemma core_up_trace:
  "mt_core_supported m \<Longrightarrow> \<not> intrs_enabled m \<Longrightarrow>
   core_up fixed_ctr0 m =
     Inr (m\<lparr>trace := trace m @
            [Wrmsr64 (PMC_FIXED_WR fixed_ctr0 0) (mtc_snaps (cpu_monotonic m) 0),
             Wrmsr64 (PMC_FIXED_WR fixed_ctr0 1) (mtc_snaps (cpu_monotonic m) 1),
             Wrmsr64 (PMC_FIXED_WR fixed_ctr0 2) (mtc_snaps (cpu_monotonic m) 2),
             Wrmsr64 FIXED_CTR_CTRL FIXED_CTR_CTRL_INIT,
             Wrmsr64 GLOBAL_CTRL GLOBAL_CTRL_FIXED_EN]\<rparr>)"
  by (simp add: core_up_def ml_get_interrupts_enabled_def core_up_loop_trace wrmsr64_def)

lemma pmi_body_counts:
  assumes kc: "keeps_counts upd" and b: "pmi_body upd status i m = Inr m'"
  shows "\<exists>d. unat d \<le> 2 ^ 48 \<and> (k \<noteq> i \<longrightarrow> d = 0) \<and>
           mtc_counts (cpu_monotonic m') k = mtc_counts (cpu_monotonic m) k + d"
proof (cases "status AND CTR_FIX_POS i = 0")
  case True
  with b have "m' = m" by (simp add: pmi_body_skip)
  then have "unat (0 :: u64) \<le> 2 ^ 48 \<and> (k \<noteq> i \<longrightarrow> (0 :: u64) = 0) \<and>
           mtc_counts (cpu_monotonic m') k = mtc_counts (cpu_monotonic m) k + 0" by simp
  then show ?thesis by blast
next
  case False
  show ?thesis
  proof (cases "mtc_snaps (cpu_monotonic m) i \<le> CTR_MAX")
    case le: True
    from kc have keep: "\<And>x. mtc_counts (upd i x) = mtc_counts (cpu_monotonic x)"
      by (simp add: keeps_counts_def)
    let ?d = "CTR_MAX - mtc_snaps (cpu_monotonic m) i + 1"
    from b False le keep have
      c: "mtc_counts (cpu_monotonic m') =
            (mtc_counts (cpu_monotonic m))(i := mtc_counts (cpu_monotonic m) i + ?d)"
      by (auto simp: pmi_body_ok)
    have bound: "unat ?d \<le> 2 ^ 48" using unat_prior [OF le] by simp
    show ?thesis
    proof (cases "k = i")
      case True
      with c bound show ?thesis by auto
    next
      case False
      with c have "unat (0 :: u64) \<le> 2 ^ 48 \<and> (k \<noteq> i \<longrightarrow> (0 :: u64) = 0) \<and>
           mtc_counts (cpu_monotonic m') k = mtc_counts (cpu_monotonic m) k + 0" by simp
      then show ?thesis by blast
    qed
  next
    case False
    with \<open>status AND CTR_FIX_POS i \<noteq> 0\<close> b show ?thesis by (simp add: pmi_body_fail)
  qed
qed

lemma mt_pmi_counts:
  assumes kc: "keeps_counts upd" and run: "mt_pmi_x86_64 upd state m = Inr (r, m')"
  shows "\<exists>d. unat d \<le> 2 ^ 48 \<and>
           mtc_counts (cpu_monotonic m') k = mtc_counts (cpu_monotonic m) k + d"
proof -
  from mt_pmi_bodies [OF run] obtain m1 m2 m3 where
    b0: "pmi_body upd (msr_value m GLOBAL_STATUS) 0 (m\<lparr>mt_pmis := mt_pmis m + 1\<rparr>) = Inr m1" and
    b1: "pmi_body upd (msr_value m GLOBAL_STATUS) 1 m1 = Inr m2" and
    b2: "pmi_body upd (msr_value m GLOBAL_STATUS) 2 m2 = Inr m3" and
    eq: "cpu_monotonic m' = cpu_monotonic m3"
    by blast
  from pmi_body_counts [OF kc b0, of k] obtain d0 where
    d0: "unat d0 \<le> 2 ^ 48" "k \<noteq> 0 \<longrightarrow> d0 = 0"
      "mtc_counts (cpu_monotonic m1) k = mtc_counts (cpu_monotonic m) k + d0" by auto
  from pmi_body_counts [OF kc b1, of k] obtain d1 where
    d1: "unat d1 \<le> 2 ^ 48" "k \<noteq> 1 \<longrightarrow> d1 = 0"
      "mtc_counts (cpu_monotonic m2) k = mtc_counts (cpu_monotonic m1) k + d1" by auto
  from pmi_body_counts [OF kc b2, of k] obtain d2 where
    d2: "unat d2 \<le> 2 ^ 48" "k \<noteq> 2 \<longrightarrow> d2 = 0"
      "mtc_counts (cpu_monotonic m3) k = mtc_counts (cpu_monotonic m2) k + d2" by auto
  have sum: "mtc_counts (cpu_monotonic m') k = mtc_counts (cpu_monotonic m) k + (d0 + d1 + d2)"
    using d0(3) d1(3) d2(3) eq by (simp add: add.assoc)
  have "unat (d0 + d1 + d2) \<le> 2 ^ 48"
  proof (cases "k = 0")
    case True
    with d1(2) d2(2) d0(1) show ?thesis by simp
  next
    case k0: False
    show ?thesis
    proof (cases "k = 1")
      case True
      with d0(2) d2(2) d1(1) show ?thesis by simp
    next
      case False
      with k0 d0(2) d1(2) d2(1) show ?thesis by simp
    qed
  qed
  with sum show ?thesis by blast
qed

lemma mt_core_set_snap_record:
  "mt_core_set_snap fixed_ctr0 ctr count m = Inr m' \<Longrightarrow> cpu_monotonic m' = cpu_monotonic m"
  by (auto simp: mt_core_set_snap_def wrmsr64_def split: if_splits)

lemma core_up_record:
  assumes "core_up fixed_ctr0 m = Inr m'"
  shows "cpu_monotonic m' = cpu_monotonic m"
proof (cases "mt_core_supported m")
  case True
  with assms have "\<not> intrs_enabled m"
    by (auto simp: core_up_def ml_get_interrupts_enabled_def split: if_splits)
  with True assms show ?thesis by (auto simp: core_up_trace)
next
  case False
  with assms show ?thesis by (simp add: core_up_def)
qed

lemma mt_cpu_up_record:
  assumes "mt_cpu_up fixed_ctr0 m = Inr m'"
  shows "cpu_monotonic m' = cpu_monotonic m"
proof -
  from assms obtain m2 where
    c: "core_up fixed_ctr0 (snd (ml_set_interrupts_enabled False m)) = Inr m2" and
    r: "m' = snd (ml_set_interrupts_enabled (intrs_enabled m) m2)"
    by (auto simp: mt_cpu_up_def ml_set_interrupts_enabled_def split: sum.splits)
  from core_up_record [OF c] r show ?thesis
    by (simp add: ml_set_interrupts_enabled_def)
qed

lemma core_down_counts:
  assumes fl: "adds_a_wrap_at_most flush" and dn: "core_down flush m = Inr m'"
  shows "\<exists>d. unat d \<le> 2 ^ 48 \<and>
           mtc_counts (cpu_monotonic m') k = mtc_counts (cpu_monotonic m) k + d"
proof (cases "mt_core_supported m")
  case True
  with dn have m': "m' = (wrmsr64 GLOBAL_CTRL 0 m)\<lparr>cpu_monotonic := flush (wrmsr64 GLOBAL_CTRL 0 m)\<rparr>"
    by (auto simp: core_down_def Let_def split: if_splits)
  from fl obtain d where "unat d \<le> 2 ^ 48"
    "mtc_counts (flush (wrmsr64 GLOBAL_CTRL 0 m)) k =
       mtc_counts (cpu_monotonic (wrmsr64 GLOBAL_CTRL 0 m)) k + d"
    unfolding adds_a_wrap_at_most_def by blast
  with m' have "unat d \<le> 2 ^ 48 \<and>
      mtc_counts (cpu_monotonic m') k = mtc_counts (cpu_monotonic m) k + d"
    by (simp add: wrmsr64_def)
  then show ?thesis by blast
next
  case False
  with dn have "m' = m" by (simp add: core_down_def)
  then have "unat (0 :: u64) \<le> 2 ^ 48 \<and>
      mtc_counts (cpu_monotonic m') k = mtc_counts (cpu_monotonic m) k + 0" by simp
  then show ?thesis by blast
qed

lemma exec_counts:
  assumes kc: "keeps_counts upd" and fl: "adds_a_wrap_at_most flush"
    and ex: "exec upd flush fixed_ctr0 x m = Inr m'"
  shows "\<exists>d. unat d \<le> (if folds x then 2 ^ 48 else 0) \<and>
           mtc_counts (cpu_monotonic m') k = mtc_counts (cpu_monotonic m) k + d"
proof (cases x)
  case (Pmi state)
  with ex obtain r where "mt_pmi_x86_64 upd state m = Inr (r, m')"
    by (auto split: sum.splits)
  from mt_pmi_counts [OF kc this, of k] Pmi show ?thesis by simp
next
  case Cpu_down
  with ex have "core_down flush m = Inr m'" by (simp add: mt_cpu_down_def)
  from core_down_counts [OF fl this, of k] Cpu_down show ?thesis by simp
next
  case (Core_snap ctr)
  with ex have "m' = m" by (auto split: sum.splits)
  then have "unat (0 :: u64) \<le> 0 \<and>
      mtc_counts (cpu_monotonic m') k = mtc_counts (cpu_monotonic m) k + 0" by simp
  with Core_snap show ?thesis by (simp del: unsigned_0)
next
  case (Core_set_snap ctr count)
  with ex have "cpu_monotonic m' = cpu_monotonic m" by (simp add: mt_core_set_snap_record)
  with Core_set_snap show ?thesis by simp
next
  case Cpu_up
  with ex have "cpu_monotonic m' = cpu_monotonic m" by (simp add: mt_cpu_up_record)
  with Cpu_up show ?thesis by simp
next
  case (Init eax)
  with ex have "cpu_monotonic m' = cpu_monotonic m" by (auto simp: mt_init_def)
  with Init show ?thesis by simp
next
  case (Surroundings msr pmc en)
  with ex have "cpu_monotonic m' = cpu_monotonic m" by auto
  with Surroundings show ?thesis by simp
qed

lemma u64_add_no_wrap:
  assumes "unat (c :: u64) + n < 2 ^ 64" and "unat (d :: u64) \<le> n"
  shows "unat (c + d) = unat c + unat d"
proof -
  from assms have "unat c + unat d < 2 ^ LENGTH(64)" by simp
  then show ?thesis by (rule unat_add_lem [THEN iffD1])
qed

lemma run_counts:
  assumes kc: "keeps_counts upd" and fl: "adds_a_wrap_at_most flush"
  shows "run upd flush fixed_ctr0 xs m = Inr m' \<Longrightarrow>
         unat (mtc_counts (cpu_monotonic m) k) + length (filter folds xs) * 2 ^ 48 < 2 ^ 64 \<Longrightarrow>
         unat (mtc_counts (cpu_monotonic m) k) \<le> unat (mtc_counts (cpu_monotonic m') k) \<and>
         unat (mtc_counts (cpu_monotonic m') k) \<le>
           unat (mtc_counts (cpu_monotonic m) k) + length (filter folds xs) * 2 ^ 48"
proof (induction xs arbitrary: m)
  case Nil
  then show ?case by simp
next
  case (Cons x xs)
  from Cons.prems(1) obtain m1 where
    ex: "exec upd flush fixed_ctr0 x m = Inr m1" and
    rest: "run upd flush fixed_ctr0 xs m1 = Inr m'"
    by (auto split: sum.splits)
  let ?c = "mtc_counts (cpu_monotonic m) k"
  let ?n = "length (filter folds xs)"
  let ?s = "if folds x then 2 ^ 48 else (0 :: nat)"
  from exec_counts [OF kc fl ex, of k] obtain d where
    d: "unat d \<le> ?s" "mtc_counts (cpu_monotonic m1) k = ?c + d" by blast
  have len: "length (filter folds (x # xs)) * 2 ^ 48 = ?s + ?n * 2 ^ 48"
    by simp
  with Cons.prems(2) have budget: "unat ?c + (?s + ?n * 2 ^ 48) < 2 ^ 64" by simp
  then have "unat ?c + ?s < 2 ^ 64" by simp
  from u64_add_no_wrap [OF this d(1)] d(2)
  have step: "unat (mtc_counts (cpu_monotonic m1) k) = unat ?c + unat d" by simp
  with budget d(1) have
    "unat (mtc_counts (cpu_monotonic m1) k) + ?n * 2 ^ 48 < 2 ^ 64" by simp
  from Cons.IH [OF rest this] step d(1) len show ?case by simp
qed

text \<open>Unfolding sets for evaluating the handler and the startup at a concrete state.\<close>

lemmas pmi_eval = mt_pmi_x86_64_def pmi_loop_unroll pmi_body_def pmi_fold_def pmi_prior_def
  ml_get_interrupts_enabled_def rdmsr64_def kpc_pmi_handler_def untouched_def pmi_state_def
  CTR_MAX_def CTR_FIX_POS_def GLOBAL_STATUS_def Let_def

lemmas up_eval = mt_cpu_up_def core_up_def core_up_loop_unroll mt_core_set_snap_def
  ml_set_interrupts_enabled_def ml_get_interrupts_enabled_def wrmsr64_def PMC_FIXED_WR_def
  FIXED_CTR_CTRL_def FIXED_CTR_CTRL_INIT_def GLOBAL_CTRL_def GLOBAL_CTRL_FIXED_EN_def

lemma untouched_keeps:
  "keeps_record untouched" "keeps_counts untouched" "keeps_others untouched"
  by (simp_all add: keeps_record_def keeps_counts_def keeps_others_def untouched_def)

section \<open>Properties\<close>

text \<open>
  The handler asserts that interrupts are off and that each \<open>prior\<close> is at most
  \<open>CTR_MAX\<close>, so the properties of a run that returns carry both as hypotheses. The
  assertions are taken as compiled in. Where a property speaks of the record after the
  handler, it says what it needs of \<open>mt_mtc_update_count\<close>.
\<close>

text \<open>
  C1. For every fixed counter \<open>i\<close> in 0, 1, 2 whose overflow bit is set in the status the
  handler read, the handler computes the delta \<open>(2^48 - 1 - snapshot[i]) + 1\<close> (no
  wrap-around occurs in it), adds exactly that delta to \<open>mtc_counts[i]\<close>, and its fold
  sets \<open>mtc_snaps[i]\<close> to 0. The count holds for the record the handler returns when the
  helper leaves counts alone and touches only the counter it is called for; the snapshot
  is 0 in that record when the helper leaves the record alone.
\<close>

theorem pmi_folds_overflowed_counters:
  assumes "keeps_counts upd" and "keeps_others upd" and "\<not> intrs_enabled m"
    and "\<forall>i<MT_CORE_NFIXED. msr_value m GLOBAL_STATUS AND CTR_FIX_POS i \<noteq> 0 \<longrightarrow>
           mtc_snaps (cpu_monotonic m) i \<le> CTR_MAX"
  shows "\<exists>m'. mt_pmi_x86_64 upd state m = Inr (0, m') \<and>
           (\<forall>i<MT_CORE_NFIXED. msr_value m GLOBAL_STATUS AND CTR_FIX_POS i \<noteq> 0 \<longrightarrow>
              pmi_prior (mtc_snaps (cpu_monotonic m) i) =
                Inr ((2 ^ 48 - 1 - mtc_snaps (cpu_monotonic m) i) + 1) \<and>
              unat ((2 ^ 48 - 1 - mtc_snaps (cpu_monotonic m) i) + 1) =
                (2 ^ 48 - 1 - unat (mtc_snaps (cpu_monotonic m) i)) + 1 \<and>
              mtc_counts (cpu_monotonic m') i =
                mtc_counts (cpu_monotonic m) i + ((2 ^ 48 - 1 - mtc_snaps (cpu_monotonic m) i) + 1) \<and>
              (\<exists>mtc. pmi_fold i (cpu_monotonic m) = Inr mtc \<and> mtc_snaps mtc i = 0) \<and>
              (keeps_record upd \<longrightarrow> mtc_snaps (cpu_monotonic m') i = 0))"
proof -
  from mt_pmi_returns [OF assms(3) assms(2) assms(4)]
  obtain m' where run: "mt_pmi_x86_64 upd state m = Inr (0, m')" by blast
  have "pmi_prior (mtc_snaps (cpu_monotonic m) i) =
          Inr ((2 ^ 48 - 1 - mtc_snaps (cpu_monotonic m) i) + 1) \<and>
        unat ((2 ^ 48 - 1 - mtc_snaps (cpu_monotonic m) i) + 1) =
          (2 ^ 48 - 1 - unat (mtc_snaps (cpu_monotonic m) i)) + 1 \<and>
        mtc_counts (cpu_monotonic m') i =
          mtc_counts (cpu_monotonic m) i + ((2 ^ 48 - 1 - mtc_snaps (cpu_monotonic m) i) + 1) \<and>
        (\<exists>mtc. pmi_fold i (cpu_monotonic m) = Inr mtc \<and> mtc_snaps mtc i = 0) \<and>
        (keeps_record upd \<longrightarrow> mtc_snaps (cpu_monotonic m') i = 0)"
    if lt: "i < MT_CORE_NFIXED" and flag: "msr_value m GLOBAL_STATUS AND CTR_FIX_POS i \<noteq> 0" for i
  proof -
    from mt_pmi_flagged_counts [OF assms(1) assms(2) run lt flag] have
      le: "mtc_snaps (cpu_monotonic m) i \<le> CTR_MAX" and
      c: "mtc_counts (cpu_monotonic m') i =
           mtc_counts (cpu_monotonic m) i + (CTR_MAX - mtc_snaps (cpu_monotonic m) i + 1)"
      by simp_all
    have "unat (CTR_MAX - mtc_snaps (cpu_monotonic m) i + 1) =
            2 ^ 48 - unat (mtc_snaps (cpu_monotonic m) i)"
      using le by (rule unat_prior)
    moreover have "unat (mtc_snaps (cpu_monotonic m) i) \<le> 2 ^ 48 - 1"
      using le by (simp add: word_le_nat_alt unat_CTR_MAX)
    ultimately have u: "unat (CTR_MAX - mtc_snaps (cpu_monotonic m) i + 1) =
            (2 ^ 48 - 1 - unat (mtc_snaps (cpu_monotonic m) i)) + 1"
      by simp
    have f: "\<exists>mtc. pmi_fold i (cpu_monotonic m) = Inr mtc \<and> mtc_snaps mtc i = 0"
      using le by (simp add: pmi_fold_ok)
    have s: "keeps_record upd \<longrightarrow> mtc_snaps (cpu_monotonic m') i = 0"
      using mt_pmi_flagged [OF _ run lt flag] by blast
    from pmi_prior_ok [OF le] u c f s show ?thesis by (simp add: CTR_MAX_def)
  qed
  with run show ?thesis by blast
qed

theorem pmi_folds_overflowed_counters_witness:
  "keeps_counts untouched \<and> keeps_others untouched \<and> keeps_record untouched \<and>
   \<not> intrs_enabled two_overflows \<and>
   mtc_snaps (cpu_monotonic two_overflows) 0 \<le> CTR_MAX \<and>
   mtc_snaps (cpu_monotonic two_overflows) 1 \<le> CTR_MAX \<and>
   mtc_snaps (cpu_monotonic two_overflows) 2 \<le> CTR_MAX \<and>
   (\<exists>m'. mt_pmi_x86_64 untouched 0 two_overflows = Inr (0, m') \<and>
      mtc_counts (cpu_monotonic m') 0 = 100 + 0xFFFFFFFFFFF6 \<and>
      mtc_snaps (cpu_monotonic m') 0 = 0 \<and>
      mtc_counts (cpu_monotonic m') 2 = 100 + 5 \<and>
      mtc_snaps (cpu_monotonic m') 2 = 0)"
proof -
  have g: "mtc_snaps (cpu_monotonic two_overflows) 0 \<le> CTR_MAX \<and>
      mtc_snaps (cpu_monotonic two_overflows) 1 \<le> CTR_MAX \<and>
      mtc_snaps (cpu_monotonic two_overflows) 2 \<le> CTR_MAX"
    by (simp add: two_overflows_def pmi_state_def CTR_MAX_def)
  have h1: "keeps_counts untouched" by (simp add: keeps_counts_def untouched_def)
  have h2: "keeps_others untouched" by (simp add: keeps_others_def untouched_def)
  have h3: "keeps_record untouched" by (simp add: keeps_record_def untouched_def)
  have h4: "\<not> intrs_enabled two_overflows" by (simp add: two_overflows_def pmi_state_def)
  have h5: "\<forall>i<MT_CORE_NFIXED. msr_value two_overflows GLOBAL_STATUS AND CTR_FIX_POS i \<noteq> 0 \<longrightarrow>
      mtc_snaps (cpu_monotonic two_overflows) i \<le> CTR_MAX"
    by (simp add: two_overflows_def pmi_state_def CTR_MAX_def)
  have f0: "(0::nat) < MT_CORE_NFIXED \<and>
      msr_value two_overflows GLOBAL_STATUS AND CTR_FIX_POS 0 \<noteq> 0"
    by (simp add: MT_CORE_NFIXED_def two_overflows_def pmi_state_def CTR_FIX_POS_def)
  have f2: "(2::nat) < MT_CORE_NFIXED \<and>
      msr_value two_overflows GLOBAL_STATUS AND CTR_FIX_POS 2 \<noteq> 0"
    by (simp add: MT_CORE_NFIXED_def two_overflows_def pmi_state_def CTR_FIX_POS_def)
  have v: "mtc_snaps (cpu_monotonic two_overflows) 0 = 10"
    "mtc_snaps (cpu_monotonic two_overflows) 2 = 2 ^ 48 - 5"
    "mtc_counts (cpu_monotonic two_overflows) 0 = 100"
    "mtc_counts (cpu_monotonic two_overflows) 2 = 100"
    by (simp_all add: two_overflows_def pmi_state_def)
  from pmi_folds_overflowed_counters [OF h1 h2 h4 h5, of 0] obtain m' where
    r: "mt_pmi_x86_64 untouched 0 two_overflows = Inr (0, m')" and
    a: "\<forall>i<MT_CORE_NFIXED. msr_value two_overflows GLOBAL_STATUS AND CTR_FIX_POS i \<noteq> 0 \<longrightarrow>
          mtc_counts (cpu_monotonic m') i =
            mtc_counts (cpu_monotonic two_overflows) i +
              ((2 ^ 48 - 1 - mtc_snaps (cpu_monotonic two_overflows) i) + 1) \<and>
          (keeps_record untouched \<longrightarrow> mtc_snaps (cpu_monotonic m') i = 0)"
    by blast
  from a f0 h3 v have "mtc_counts (cpu_monotonic m') 0 = 100 + 0xFFFFFFFFFFF6 \<and>
      mtc_snaps (cpu_monotonic m') 0 = 0" by simp
  moreover from a f2 h3 v have "mtc_counts (cpu_monotonic m') 2 = 100 + 5 \<and>
      mtc_snaps (cpu_monotonic m') 2 = 0" by simp
  ultimately show ?thesis using h1 h2 h3 h4 g r by blast
qed

text \<open>
  C2, as stated, fails: the addition to \<open>mtc_counts[i]\<close> is an unchecked 64-bit addition.
  With the count at \<open>2^64 - 1\<close> and the snapshot at 0, one interrupt leaves the count at
  \<open>2^48 - 1\<close>.
\<close>

theorem accumulator_wraps:
  "run untouched unflushed 0x309 [Pmi 0] accumulator_full = Inr accumulator_wrapped \<and>
   mtc_counts (cpu_monotonic accumulator_full) 0 = 0xFFFFFFFFFFFFFFFF \<and>
   mtc_counts (cpu_monotonic accumulator_wrapped) 0 = 0xFFFFFFFFFFFF \<and>
   \<not> mtc_counts (cpu_monotonic accumulator_full) 0
       \<le> mtc_counts (cpu_monotonic accumulator_wrapped) 0"
  by (simp add: accumulator_full_def accumulator_wrapped_def pmi_eval fun_eq_iff)

text \<open>
  C2, amended. Across any sequence of calls of \<open>mt_init\<close>, \<open>mt_core_snap\<close>,
  \<open>mt_core_set_snap\<close>, \<open>mt_cpu_down\<close>, \<open>mt_cpu_up\<close> and the overflow handler, interleaved
  with any changes of the hardware's answers and of the interrupt flag, \<open>mtc_counts[k]\<close>
  does not decrease as long as it stays below \<open>2^64\<close>: each interrupt and each shutdown
  adds at most \<open>2^48\<close>, so a sequence with \<open>n\<close> interrupts and shutdowns that starts with
  \<open>mtc_counts[k] + n * 2^48 < 2^64\<close> ends with a count that is at least the first and at
  most \<open>n * 2^48\<close> above it. \<open>mt_mtc_update_count\<close> is asked to leave counts alone and
  \<open>mt_mtc_update_fixed_counts\<close> to add at most \<open>2^48\<close> to a count.
\<close>

theorem counts_monotone_below_wrap:
  assumes "keeps_counts upd" and "adds_a_wrap_at_most flush"
    and "run upd flush fixed_ctr0 xs m = Inr m'"
    and "unat (mtc_counts (cpu_monotonic m) k) + length (filter folds xs) * 2 ^ 48 < 2 ^ 64"
  shows "mtc_counts (cpu_monotonic m) k \<le> mtc_counts (cpu_monotonic m') k \<and>
         unat (mtc_counts (cpu_monotonic m') k) \<le>
           unat (mtc_counts (cpu_monotonic m) k) + length (filter folds xs) * 2 ^ 48"
  using run_counts [OF assms] by (simp add: word_le_nat_alt)

theorem counts_monotone_below_wrap_witness:
  "keeps_counts untouched \<and> adds_a_wrap_at_most unflushed \<and>
   run untouched unflushed 0x309 boot_then_overflow quiet = Inr after_boot_overflow \<and>
   unat (mtc_counts (cpu_monotonic quiet) 0) + length (filter folds boot_then_overflow) * 2 ^ 48
     < 2 ^ 64 \<and>
   mtc_counts (cpu_monotonic quiet) 0 \<le> mtc_counts (cpu_monotonic after_boot_overflow) 0 \<and>
   unat (mtc_counts (cpu_monotonic after_boot_overflow) 0) \<le>
     unat (mtc_counts (cpu_monotonic quiet) 0) + length (filter folds boot_then_overflow) * 2 ^ 48"
proof -
  have h1: "keeps_counts untouched" by (rule untouched_keeps)
  have h0: "adds_a_wrap_at_most unflushed"
  proof -
    have "unat (0 :: u64) \<le> 2 ^ 48 \<and>
        mtc_counts (unflushed m) k = mtc_counts (cpu_monotonic m) k + 0" for m k
      by (simp add: unflushed_def)
    then show ?thesis unfolding adds_a_wrap_at_most_def by blast
  qed
  have h2: "run untouched unflushed 0x309 boot_then_overflow quiet = Inr after_boot_overflow"
    by (simp add: boot_then_overflow_def quiet_def after_boot_overflow_def mt_init_def
          mt_core_snap_def rdpmc_def mt_cpu_down_def core_down_def unflushed_def
          up_eval pmi_eval fun_eq_iff)
  have h3: "unat (mtc_counts (cpu_monotonic quiet) 0) +
      length (filter folds boot_then_overflow) * 2 ^ 48 < 2 ^ 64"
    by (simp add: boot_then_overflow_def quiet_def)
  from counts_monotone_below_wrap [OF h1 h0 h2 h3] h0 h1 h2 h3 show ?thesis by blast
qed

text \<open>
  C3, as stated, fails: the assertion is made before the increment. From snapshot 0 the
  delta is \<open>2^48\<close>, which is above \<open>2^48 - 1\<close>; the assertion holds and the delta is added
  to the count.
\<close>

theorem full_wrap_delta_exceeds_ctr_max:
  "pmi_prior 0 = Inr 0x1000000000000 \<and> \<not> (0x1000000000000 :: u64) \<le> 2 ^ 48 - 1 \<and>
   mt_pmi_x86_64 untouched 0 fresh_overflow = Inr (0, fresh_folded) \<and>
   mtc_counts (cpu_monotonic fresh_overflow) 0 = 0 \<and>
   mtc_counts (cpu_monotonic fresh_folded) 0 = 0x1000000000000"
  by (simp add: fresh_overflow_def fresh_folded_def pmi_eval fun_eq_iff)

text \<open>
  C3, amended. The assertion bounds \<open>CTR_MAX - snapshot\<close>, the value before the increment:
  it holds exactly when the snapshot is at most \<open>2^48 - 1\<close>, and then the delta is
  \<open>2^48 - snapshot\<close>, between 1 and \<open>2^48\<close> inclusive. For a larger snapshot of an
  overflowed counter the assertion fails and the handler stops there, with nothing
  returned.
\<close>

theorem prior_assertion_bound:
  "(snap \<le> CTR_MAX \<longrightarrow>
      (\<exists>d. pmi_prior snap = Inr d \<and> unat d = 2 ^ 48 - unat snap \<and> 1 \<le> unat d \<and> unat d \<le> 2 ^ 48)) \<and>
   (\<not> snap \<le> CTR_MAX \<longrightarrow> pmi_prior snap = Inl (Assert_failed ''prior <= CTR_MAX'')) \<and>
   (keeps_others upd \<and> \<not> intrs_enabled m \<and> k < MT_CORE_NFIXED \<and>
    msr_value m GLOBAL_STATUS AND CTR_FIX_POS k \<noteq> 0 \<and>
    \<not> mtc_snaps (cpu_monotonic m) k \<le> CTR_MAX \<longrightarrow>
      mt_pmi_x86_64 upd state m = Inl (Assert_failed ''prior <= CTR_MAX''))"
proof (intro conjI impI)
  assume le: "snap \<le> CTR_MAX"
  then have "unat snap \<le> 2 ^ 48 - 1" by (simp add: word_le_nat_alt unat_CTR_MAX)
  with unat_prior [OF le] pmi_prior_ok [OF le]
  show "\<exists>d. pmi_prior snap = Inr d \<and> unat d = 2 ^ 48 - unat snap \<and> 1 \<le> unat d \<and> unat d \<le> 2 ^ 48"
    by simp
next
  assume "\<not> snap \<le> CTR_MAX"
  then show "pmi_prior snap = Inl (Assert_failed ''prior <= CTR_MAX'')" by (rule pmi_prior_fail)
next
  assume "keeps_others upd \<and> \<not> intrs_enabled m \<and> k < MT_CORE_NFIXED \<and>
    msr_value m GLOBAL_STATUS AND CTR_FIX_POS k \<noteq> 0 \<and>
    \<not> mtc_snaps (cpu_monotonic m) k \<le> CTR_MAX"
  then show "mt_pmi_x86_64 upd state m = Inl (Assert_failed ''prior <= CTR_MAX'')"
    using mt_pmi_assert_prior [of upd m k state] by blast
qed

theorem prior_assertion_bound_witness:
  "(10 :: u64) \<le> CTR_MAX \<and>
   (\<exists>d. pmi_prior 10 = Inr d \<and> unat d = 2 ^ 48 - unat (10 :: u64) \<and> 1 \<le> unat d \<and> unat d \<le> 2 ^ 48) \<and>
   \<not> (2 ^ 48 :: u64) \<le> CTR_MAX \<and>
   pmi_prior (2 ^ 48) = Inl (Assert_failed ''prior <= CTR_MAX'') \<and>
   keeps_others untouched \<and> \<not> intrs_enabled bad_snapshot \<and> 1 < MT_CORE_NFIXED \<and>
   msr_value bad_snapshot GLOBAL_STATUS AND CTR_FIX_POS 1 \<noteq> 0 \<and>
   \<not> mtc_snaps (cpu_monotonic bad_snapshot) 1 \<le> CTR_MAX \<and>
   mt_pmi_x86_64 untouched 0 bad_snapshot = Inl (Assert_failed ''prior <= CTR_MAX'')"
proof -
  have a: "(10 :: u64) \<le> CTR_MAX" by (simp add: CTR_MAX_def)
  have b: "\<not> (2 ^ 48 :: u64) \<le> CTR_MAX" by (simp add: CTR_MAX_def)
  have c: "keeps_others untouched \<and> \<not> intrs_enabled bad_snapshot \<and> 1 < MT_CORE_NFIXED \<and>
     msr_value bad_snapshot GLOBAL_STATUS AND CTR_FIX_POS 1 \<noteq> 0 \<and>
     \<not> mtc_snaps (cpu_monotonic bad_snapshot) 1 \<le> CTR_MAX"
    by (simp add: untouched_keeps bad_snapshot_def pmi_state_def MT_CORE_NFIXED_def
          CTR_FIX_POS_def CTR_MAX_def)
  from prior_assertion_bound [of 10 untouched bad_snapshot 1 0]
    prior_assertion_bound [of "2 ^ 48" untouched bad_snapshot 1 0] a b c
  show ?thesis by blast
qed




text \<open>
  C5, as stated, fails: from the snapshot \<open>2^48 - 5\<close> the distance to \<open>CTR_MAX\<close> is 4, so
  the delta is 5, and a count of 100 becomes 105.
\<close>

theorem delta_five_below_wrap_is_five:
  "pmi_prior (2 ^ 48 - 5) = Inr 5 \<and>
   mt_pmi_x86_64 untouched 0 five_below = Inr (0, five_folded) \<and>
   mtc_snaps (cpu_monotonic five_below) 1 = 2 ^ 48 - 5 \<and>
   mtc_counts (cpu_monotonic five_below) 1 = 100 \<and>
   mtc_counts (cpu_monotonic five_folded) 1 = 105 \<and>
   mtc_counts (cpu_monotonic five_folded) 1 \<noteq> mtc_counts (cpu_monotonic five_below) 1 + 6"
  by (simp add: five_below_def five_folded_def pmi_eval fun_eq_iff)

text \<open>
  C5, amended. With width 48 and snapshot \<open>2^48 - 5\<close> the computed delta is exactly 5:
  \<open>mtc_counts[i]\<close> increases by exactly 5 and \<open>mtc_snaps[i]\<close> is reset to 0 (the helper
  leaving the record alone).
\<close>

theorem pmi_delta_at_five_below_wrap:
  assumes "keeps_record upd" and "\<not> intrs_enabled m" and "i < MT_CORE_NFIXED"
    and "msr_value m GLOBAL_STATUS AND CTR_FIX_POS i \<noteq> 0"
    and "mtc_snaps (cpu_monotonic m) i = 2 ^ 48 - 5"
    and "\<forall>j<MT_CORE_NFIXED. msr_value m GLOBAL_STATUS AND CTR_FIX_POS j \<noteq> 0 \<longrightarrow>
           mtc_snaps (cpu_monotonic m) j \<le> CTR_MAX"
  shows "pmi_prior (2 ^ 48 - 5) = Inr 5 \<and>
         (\<exists>m'. mt_pmi_x86_64 upd state m = Inr (0, m') \<and>
            mtc_counts (cpu_monotonic m') i = mtc_counts (cpu_monotonic m) i + 5 \<and>
            mtc_snaps (cpu_monotonic m') i = 0)"
proof
  show "pmi_prior (2 ^ 48 - 5) = Inr 5" by (simp add: pmi_prior_def CTR_MAX_def)
  from mt_pmi_returns [OF assms(2) keeps_record_others [OF assms(1)] assms(6)]
  obtain m' where run: "mt_pmi_x86_64 upd state m = Inr (0, m')" by blast
  from mt_pmi_flagged [OF assms(1) run assms(3) assms(4)] assms(5)
  have "mtc_counts (cpu_monotonic m') i = mtc_counts (cpu_monotonic m) i + 5 \<and>
        mtc_snaps (cpu_monotonic m') i = 0"
    by (simp add: CTR_MAX_def)
  with run show "\<exists>m'. mt_pmi_x86_64 upd state m = Inr (0, m') \<and>
            mtc_counts (cpu_monotonic m') i = mtc_counts (cpu_monotonic m) i + 5 \<and>
            mtc_snaps (cpu_monotonic m') i = 0" by blast
qed

theorem pmi_delta_at_five_below_wrap_witness:
  "keeps_record untouched \<and> \<not> intrs_enabled five_below \<and> 1 < MT_CORE_NFIXED \<and>
   msr_value five_below GLOBAL_STATUS AND CTR_FIX_POS 1 \<noteq> 0 \<and>
   mtc_snaps (cpu_monotonic five_below) 1 = 2 ^ 48 - 5 \<and>
   mtc_snaps (cpu_monotonic five_below) 0 \<le> CTR_MAX \<and>
   mtc_snaps (cpu_monotonic five_below) 1 \<le> CTR_MAX \<and>
   mtc_snaps (cpu_monotonic five_below) 2 \<le> CTR_MAX \<and>
   pmi_prior (2 ^ 48 - 5) = Inr 5 \<and>
   (\<exists>m'. mt_pmi_x86_64 untouched 0 five_below = Inr (0, m') \<and>
      mtc_counts (cpu_monotonic m') 1 = mtc_counts (cpu_monotonic five_below) 1 + 5 \<and>
      mtc_snaps (cpu_monotonic m') 1 = 0)"
proof -
  have g: "mtc_snaps (cpu_monotonic five_below) 0 \<le> CTR_MAX \<and>
      mtc_snaps (cpu_monotonic five_below) 1 \<le> CTR_MAX \<and>
      mtc_snaps (cpu_monotonic five_below) 2 \<le> CTR_MAX"
    by (simp add: five_below_def pmi_state_def CTR_MAX_def)
  have h1: "keeps_record untouched" by (rule untouched_keeps)
  have h2: "\<not> intrs_enabled five_below" by (simp add: five_below_def pmi_state_def)
  have h3: "1 < MT_CORE_NFIXED" by (simp add: MT_CORE_NFIXED_def)
  have h4: "msr_value five_below GLOBAL_STATUS AND CTR_FIX_POS 1 \<noteq> 0"
    by (simp add: five_below_def pmi_state_def CTR_FIX_POS_def)
  have h5: "mtc_snaps (cpu_monotonic five_below) 1 = 2 ^ 48 - 5"
    by (simp add: five_below_def pmi_state_def)
  have h6: "\<forall>j<MT_CORE_NFIXED. msr_value five_below GLOBAL_STATUS AND CTR_FIX_POS j \<noteq> 0 \<longrightarrow>
      mtc_snaps (cpu_monotonic five_below) j \<le> CTR_MAX"
    by (simp add: five_below_def pmi_state_def CTR_MAX_def)
  from pmi_delta_at_five_below_wrap [OF h1 h2 h3 h4 h5 h6, of 0] h1 h2 h3 h4 h5 g
  show ?thesis by blast
qed

text \<open>
  C6. When the status has the bit of fixed counter 1 set, the bits of fixed counters 0
  and 2 clear and the four low bits clear, one run of the handler updates counter 1 and
  nothing else: its fold adds the delta \<open>(2^48 - 1 - snapshot[1]) + 1\<close>, which is not 0, to
  \<open>mtc_counts[1]\<close> and sets \<open>mtc_snaps[1]\<close> to 0; the counts and snapshots of every other
  counter are as they were; and \<open>kpc_pmi_handler\<close> is not called, the log is as it was.
  The helper is asked to touch only the counter it is called for. The count of counter 1
  in the record the handler returns is the old one plus the delta when the helper leaves
  counts alone, and its snapshot there is 0 when the helper leaves the record alone.
\<close>

theorem pmi_counter_1_only:
  assumes "keeps_others upd" and "\<not> intrs_enabled m"
    and "msr_value m GLOBAL_STATUS AND CTR_FIX_POS 1 \<noteq> 0"
    and "msr_value m GLOBAL_STATUS AND CTR_FIX_POS 0 = 0"
    and "msr_value m GLOBAL_STATUS AND CTR_FIX_POS 2 = 0"
    and "msr_value m GLOBAL_STATUS AND (push_bit 4 1 - 1) = 0"
    and "mtc_snaps (cpu_monotonic m) 1 \<le> CTR_MAX"
  shows "\<exists>m'. mt_pmi_x86_64 upd state m = Inr (0, m') \<and>
           (\<forall>k. k \<noteq> 1 \<longrightarrow>
              mtc_counts (cpu_monotonic m') k = mtc_counts (cpu_monotonic m) k \<and>
              mtc_snaps (cpu_monotonic m') k = mtc_snaps (cpu_monotonic m) k) \<and>
           trace m' = trace m \<and>
           (\<exists>mtc. pmi_fold 1 (cpu_monotonic m) = Inr mtc \<and>
              mtc_counts mtc 1 =
                mtc_counts (cpu_monotonic m) 1 + ((2 ^ 48 - 1 - mtc_snaps (cpu_monotonic m) 1) + 1) \<and>
              mtc_counts mtc 1 \<noteq> mtc_counts (cpu_monotonic m) 1 \<and>
              mtc_snaps mtc 1 = 0) \<and>
           (keeps_counts upd \<longrightarrow>
              mtc_counts (cpu_monotonic m') 1 =
                mtc_counts (cpu_monotonic m) 1 + ((2 ^ 48 - 1 - mtc_snaps (cpu_monotonic m) 1) + 1) \<and>
              mtc_counts (cpu_monotonic m') 1 \<noteq> mtc_counts (cpu_monotonic m) 1) \<and>
           (keeps_record upd \<longrightarrow> mtc_snaps (cpu_monotonic m') 1 = 0)"
proof -
  let ?d = "CTR_MAX - mtc_snaps (cpu_monotonic m) 1 + 1"
  have ok: "\<forall>i<MT_CORE_NFIXED. msr_value m GLOBAL_STATUS AND CTR_FIX_POS i \<noteq> 0 \<longrightarrow>
              mtc_snaps (cpu_monotonic m) i \<le> CTR_MAX"
  proof (intro allI impI)
    fix i assume "i < MT_CORE_NFIXED" and f: "msr_value m GLOBAL_STATUS AND CTR_FIX_POS i \<noteq> 0"
    then have "i = 0 \<or> i = 1 \<or> i = 2" unfolding MT_CORE_NFIXED_def by arith
    with f assms(4) assms(5) have "i = 1" by auto
    with assms(7) show "mtc_snaps (cpu_monotonic m) i \<le> CTR_MAX" by simp
  qed
  from mt_pmi_returns [OF assms(2) assms(1) ok]
  obtain m' where run: "mt_pmi_x86_64 upd state m = Inr (0, m')" by blast
  have others: "mtc_counts (cpu_monotonic m') k = mtc_counts (cpu_monotonic m) k \<and>
        mtc_snaps (cpu_monotonic m') k = mtc_snaps (cpu_monotonic m) k" if "k \<noteq> 1" for k
  proof -
    have "k < MT_CORE_NFIXED \<longrightarrow> msr_value m GLOBAL_STATUS AND CTR_FIX_POS k = 0"
    proof
      assume "k < MT_CORE_NFIXED"
      then have "k = 0 \<or> k = 1 \<or> k = 2" unfolding MT_CORE_NFIXED_def by arith
      with that assms(4) assms(5) show "msr_value m GLOBAL_STATUS AND CTR_FIX_POS k = 0" by auto
    qed
    with assms(1) run show ?thesis by (rule mt_pmi_unflagged)
  qed
  have log: "trace m' = trace m" using mt_pmi_Inr [OF run] assms(6) by simp
  have one: "(1::nat) < MT_CORE_NFIXED" by (simp add: MT_CORE_NFIXED_def)
  have dval: "?d = (2 ^ 48 - 1 - mtc_snaps (cpu_monotonic m) 1) + 1"
    by (simp add: CTR_MAX_def)
  have "unat (mtc_snaps (cpu_monotonic m) 1) \<le> 2 ^ 48 - 1"
    using assms(7) by (simp add: word_le_nat_alt unat_CTR_MAX)
  with unat_prior [OF assms(7)] have "unat ?d \<noteq> 0" by simp
  then have dnz: "?d \<noteq> 0" by auto
  have grows: "c + ?d \<noteq> c" for c :: u64 using dnz by simp
  have fold: "\<exists>mtc. pmi_fold 1 (cpu_monotonic m) = Inr mtc \<and>
              mtc_counts mtc 1 =
                mtc_counts (cpu_monotonic m) 1 + ((2 ^ 48 - 1 - mtc_snaps (cpu_monotonic m) 1) + 1) \<and>
              mtc_counts mtc 1 \<noteq> mtc_counts (cpu_monotonic m) 1 \<and>
              mtc_snaps mtc 1 = 0"
    using assms(7) grows [of "mtc_counts (cpu_monotonic m) 1"] dval
    by (simp add: pmi_fold_ok)
  have count: "mtc_counts (cpu_monotonic m') 1 =
                mtc_counts (cpu_monotonic m) 1 + ((2 ^ 48 - 1 - mtc_snaps (cpu_monotonic m) 1) + 1) \<and>
              mtc_counts (cpu_monotonic m') 1 \<noteq> mtc_counts (cpu_monotonic m) 1"
    if kc: "keeps_counts upd"
  proof -
    from mt_pmi_flagged_counts [OF kc assms(1) run one assms(3)]
    have "mtc_counts (cpu_monotonic m') 1 = mtc_counts (cpu_monotonic m) 1 + ?d" by simp
    with grows [of "mtc_counts (cpu_monotonic m) 1"] dval show ?thesis by simp
  qed
  have snap: "mtc_snaps (cpu_monotonic m') 1 = 0" if kr: "keeps_record upd"
    using mt_pmi_flagged [OF kr run one assms(3)] by simp
  from run others log fold count snap show ?thesis by blast
qed

theorem pmi_counter_1_only_witness:
  "keeps_others untouched \<and> keeps_counts untouched \<and> keeps_record untouched \<and>
   \<not> intrs_enabled five_below \<and>
   msr_value five_below GLOBAL_STATUS AND CTR_FIX_POS 1 \<noteq> 0 \<and>
   msr_value five_below GLOBAL_STATUS AND CTR_FIX_POS 0 = 0 \<and>
   msr_value five_below GLOBAL_STATUS AND CTR_FIX_POS 2 = 0 \<and>
   msr_value five_below GLOBAL_STATUS AND (push_bit 4 1 - 1) = 0 \<and>
   mtc_snaps (cpu_monotonic five_below) 1 \<le> CTR_MAX \<and>
   (\<exists>m'. mt_pmi_x86_64 untouched 0 five_below = Inr (0, m') \<and>
      (\<forall>k. k \<noteq> 1 \<longrightarrow>
         mtc_counts (cpu_monotonic m') k = mtc_counts (cpu_monotonic five_below) k \<and>
         mtc_snaps (cpu_monotonic m') k = mtc_snaps (cpu_monotonic five_below) k) \<and>
      trace m' = trace five_below \<and>
      mtc_counts (cpu_monotonic m') 1 = 105 \<and>
      mtc_counts (cpu_monotonic m') 1 \<noteq> mtc_counts (cpu_monotonic five_below) 1 \<and>
      mtc_snaps (cpu_monotonic m') 1 = 0)"
proof -
  have h1: "keeps_others untouched" by (rule untouched_keeps)
  have kc: "keeps_counts untouched" by (rule untouched_keeps)
  have kr: "keeps_record untouched" by (rule untouched_keeps)
  have h2: "\<not> intrs_enabled five_below" by (simp add: five_below_def pmi_state_def)
  have h3: "msr_value five_below GLOBAL_STATUS AND CTR_FIX_POS 1 \<noteq> 0"
    by (simp add: five_below_def pmi_state_def CTR_FIX_POS_def)
  have h4: "msr_value five_below GLOBAL_STATUS AND CTR_FIX_POS 0 = 0"
    by (simp add: five_below_def pmi_state_def CTR_FIX_POS_def)
  have h5: "msr_value five_below GLOBAL_STATUS AND CTR_FIX_POS 2 = 0"
    by (simp add: five_below_def pmi_state_def CTR_FIX_POS_def)
  have h6: "msr_value five_below GLOBAL_STATUS AND (push_bit 4 1 - 1) = 0"
    by (simp add: five_below_def pmi_state_def CTR_FIX_POS_def)
  have h7: "mtc_snaps (cpu_monotonic five_below) 1 \<le> CTR_MAX"
    by (simp add: five_below_def pmi_state_def CTR_MAX_def)
  have v: "mtc_counts (cpu_monotonic five_below) 1 +
             ((2 ^ 48 - 1 - mtc_snaps (cpu_monotonic five_below) 1) + 1) = 105"
    by (simp add: five_below_def pmi_state_def)
  from pmi_counter_1_only [OF h1 h2 h3 h4 h5 h6 h7, of 0] obtain m' where
    r: "mt_pmi_x86_64 untouched 0 five_below = Inr (0, m')" and
    o: "\<forall>k. k \<noteq> 1 \<longrightarrow>
         mtc_counts (cpu_monotonic m') k = mtc_counts (cpu_monotonic five_below) k \<and>
         mtc_snaps (cpu_monotonic m') k = mtc_snaps (cpu_monotonic five_below) k" and
    t: "trace m' = trace five_below" and
    c: "keeps_counts untouched \<longrightarrow>
          mtc_counts (cpu_monotonic m') 1 =
            mtc_counts (cpu_monotonic five_below) 1 +
              ((2 ^ 48 - 1 - mtc_snaps (cpu_monotonic five_below) 1) + 1) \<and>
          mtc_counts (cpu_monotonic m') 1 \<noteq> mtc_counts (cpu_monotonic five_below) 1" and
    z: "keeps_record untouched \<longrightarrow> mtc_snaps (cpu_monotonic m') 1 = 0"
    by blast
  from c kc have
    e: "mtc_counts (cpu_monotonic m') 1 =
          mtc_counts (cpu_monotonic five_below) 1 +
            ((2 ^ 48 - 1 - mtc_snaps (cpu_monotonic five_below) 1) + 1)" and
    n: "mtc_counts (cpu_monotonic m') 1 \<noteq> mtc_counts (cpu_monotonic five_below) 1"
    by blast+
  from e v have "mtc_counts (cpu_monotonic m') 1 = 105" by (simp only:)
  with n have "mtc_counts (cpu_monotonic m') 1 = 105 \<and>
      mtc_counts (cpu_monotonic m') 1 \<noteq> mtc_counts (cpu_monotonic five_below) 1" by blast
  moreover from z kr have "mtc_snaps (cpu_monotonic m') 1 = 0" by simp
  ultimately show ?thesis using h1 kc kr h2 h3 h4 h5 h6 h7 r o t by blast
qed

text \<open>
  C7. When any of the four low bits of the status is set, one run of the handler calls
  \<open>kpc_pmi_handler\<close> with the pointer it was given, exactly once, however many of these
  bits are set: the log grows by that one call.
\<close>

theorem pmi_forwards_once:
  assumes "msr_value m GLOBAL_STATUS AND (push_bit 4 1 - 1) \<noteq> 0"
    and "\<not> intrs_enabled m" and "keeps_others upd"
    and "\<forall>i<MT_CORE_NFIXED. msr_value m GLOBAL_STATUS AND CTR_FIX_POS i \<noteq> 0 \<longrightarrow>
           mtc_snaps (cpu_monotonic m) i \<le> CTR_MAX"
  shows "\<exists>m'. mt_pmi_x86_64 upd state m = Inr (0, m') \<and>
           trace m' = trace m @ [Kpc_pmi_handler state]"
proof -
  from mt_pmi_returns [OF assms(2) assms(3) assms(4)]
  obtain m' where run: "mt_pmi_x86_64 upd state m = Inr (0, m')" by blast
  from mt_pmi_Inr [OF run] assms(1) have "trace m' = trace m @ [Kpc_pmi_handler state]" by simp
  with run show ?thesis by blast
qed

theorem pmi_forwards_once_witness:
  "msr_value configurable_overflow GLOBAL_STATUS AND (push_bit 4 1 - 1) \<noteq> 0 \<and>
   \<not> intrs_enabled configurable_overflow \<and> keeps_others untouched \<and>
   mtc_snaps (cpu_monotonic configurable_overflow) 0 \<le> CTR_MAX \<and>
   mtc_snaps (cpu_monotonic configurable_overflow) 1 \<le> CTR_MAX \<and>
   mtc_snaps (cpu_monotonic configurable_overflow) 2 \<le> CTR_MAX \<and>
   (\<exists>m'. mt_pmi_x86_64 untouched 0x1234 configurable_overflow = Inr (0, m') \<and>
      trace m' = trace configurable_overflow @ [Kpc_pmi_handler 0x1234])"
proof -
  have g: "mtc_snaps (cpu_monotonic configurable_overflow) 0 \<le> CTR_MAX \<and>
      mtc_snaps (cpu_monotonic configurable_overflow) 1 \<le> CTR_MAX \<and>
      mtc_snaps (cpu_monotonic configurable_overflow) 2 \<le> CTR_MAX"
    by (simp add: configurable_overflow_def pmi_state_def CTR_MAX_def)
  have h1: "msr_value configurable_overflow GLOBAL_STATUS AND (push_bit 4 1 - 1) \<noteq> 0"
    by (simp add: configurable_overflow_def pmi_state_def CTR_FIX_POS_def)
  have h2: "\<not> intrs_enabled configurable_overflow"
    by (simp add: configurable_overflow_def pmi_state_def)
  have h3: "keeps_others untouched" by (rule untouched_keeps)
  have h4: "\<forall>i<MT_CORE_NFIXED.
      msr_value configurable_overflow GLOBAL_STATUS AND CTR_FIX_POS i \<noteq> 0 \<longrightarrow>
      mtc_snaps (cpu_monotonic configurable_overflow) i \<le> CTR_MAX"
    by (simp add: configurable_overflow_def pmi_state_def CTR_MAX_def)
  from pmi_forwards_once [OF h1 h2 h3 h4, of "0x1234"] h1 h2 h3 g show ?thesis by blast
qed

text \<open>
  C8. On a supported core \<open>mt_cpu_up\<close> does, in this order: interrupts off; the snapshot
  of counter 0, 1, 2 written to \<open>PMC_FIXED_WR(0)\<close>, \<open>(1)\<close>, \<open>(2)\<close>; \<open>FIXED_CTR_CTRL_INIT\<close>
  written to \<open>FIXED_CTR_CTRL\<close>; \<open>GLOBAL_CTRL_FIXED_EN\<close> written to \<open>GLOBAL_CTRL\<close>; the
  interrupt flag set back to what it was. \<open>core_up\<close>, entered with interrupts off, does
  the five writes. The control value has, for each of the three counters, both ring bits
  and the PMI bit set (the nibble \<open>1011\<close>), and the enable mask is the three bits
  \<open>CTR_FIX_POS\<close> of the fixed counters.
\<close>

theorem cpu_up_order:
  assumes "mt_core_supported m"
  shows "mt_cpu_up fixed_ctr0 m =
           Inr (m\<lparr>trace := trace m @
             [Ml_set_interrupts_enabled False,
              Wrmsr64 (PMC_FIXED_WR fixed_ctr0 0) (mtc_snaps (cpu_monotonic m) 0),
              Wrmsr64 (PMC_FIXED_WR fixed_ctr0 1) (mtc_snaps (cpu_monotonic m) 1),
              Wrmsr64 (PMC_FIXED_WR fixed_ctr0 2) (mtc_snaps (cpu_monotonic m) 2),
              Wrmsr64 FIXED_CTR_CTRL FIXED_CTR_CTRL_INIT,
              Wrmsr64 GLOBAL_CTRL GLOBAL_CTRL_FIXED_EN,
              Ml_set_interrupts_enabled (intrs_enabled m)]\<rparr>) \<and>
         (\<not> intrs_enabled m \<longrightarrow>
            core_up fixed_ctr0 m =
              Inr (m\<lparr>trace := trace m @
                [Wrmsr64 (PMC_FIXED_WR fixed_ctr0 0) (mtc_snaps (cpu_monotonic m) 0),
                 Wrmsr64 (PMC_FIXED_WR fixed_ctr0 1) (mtc_snaps (cpu_monotonic m) 1),
                 Wrmsr64 (PMC_FIXED_WR fixed_ctr0 2) (mtc_snaps (cpu_monotonic m) 2),
                 Wrmsr64 FIXED_CTR_CTRL FIXED_CTR_CTRL_INIT,
                 Wrmsr64 GLOBAL_CTRL GLOBAL_CTRL_FIXED_EN]\<rparr>)) \<and>
         (\<forall>i<MT_CORE_NFIXED. drop_bit (4 * i) FIXED_CTR_CTRL_INIT AND 0xf = 0xb) \<and>
         GLOBAL_CTRL_FIXED_EN = CTR_FIX_POS 0 OR CTR_FIX_POS 1 OR CTR_FIX_POS 2"
proof (intro conjI impI allI)
  have "core_up fixed_ctr0 (m\<lparr>intrs_enabled := False,
            trace := trace m @ [Ml_set_interrupts_enabled False]\<rparr>) =
     Inr (m\<lparr>intrs_enabled := False, trace := trace m @
            [Ml_set_interrupts_enabled False,
             Wrmsr64 (PMC_FIXED_WR fixed_ctr0 0) (mtc_snaps (cpu_monotonic m) 0),
             Wrmsr64 (PMC_FIXED_WR fixed_ctr0 1) (mtc_snaps (cpu_monotonic m) 1),
             Wrmsr64 (PMC_FIXED_WR fixed_ctr0 2) (mtc_snaps (cpu_monotonic m) 2),
             Wrmsr64 FIXED_CTR_CTRL FIXED_CTR_CTRL_INIT,
             Wrmsr64 GLOBAL_CTRL GLOBAL_CTRL_FIXED_EN]\<rparr>)"
    using assms by (simp add: core_up_trace)
  then show "mt_cpu_up fixed_ctr0 m =
           Inr (m\<lparr>trace := trace m @
             [Ml_set_interrupts_enabled False,
              Wrmsr64 (PMC_FIXED_WR fixed_ctr0 0) (mtc_snaps (cpu_monotonic m) 0),
              Wrmsr64 (PMC_FIXED_WR fixed_ctr0 1) (mtc_snaps (cpu_monotonic m) 1),
              Wrmsr64 (PMC_FIXED_WR fixed_ctr0 2) (mtc_snaps (cpu_monotonic m) 2),
              Wrmsr64 FIXED_CTR_CTRL FIXED_CTR_CTRL_INIT,
              Wrmsr64 GLOBAL_CTRL GLOBAL_CTRL_FIXED_EN,
              Ml_set_interrupts_enabled (intrs_enabled m)]\<rparr>)"
    by (simp add: mt_cpu_up_def ml_set_interrupts_enabled_def)
next
  assume "\<not> intrs_enabled m"
  with assms show "core_up fixed_ctr0 m =
              Inr (m\<lparr>trace := trace m @
                [Wrmsr64 (PMC_FIXED_WR fixed_ctr0 0) (mtc_snaps (cpu_monotonic m) 0),
                 Wrmsr64 (PMC_FIXED_WR fixed_ctr0 1) (mtc_snaps (cpu_monotonic m) 1),
                 Wrmsr64 (PMC_FIXED_WR fixed_ctr0 2) (mtc_snaps (cpu_monotonic m) 2),
                 Wrmsr64 FIXED_CTR_CTRL FIXED_CTR_CTRL_INIT,
                 Wrmsr64 GLOBAL_CTRL GLOBAL_CTRL_FIXED_EN]\<rparr>)"
    by (rule core_up_trace)
next
  fix i assume "i < MT_CORE_NFIXED"
  then have "i = 0 \<or> i = 1 \<or> i = 2" unfolding MT_CORE_NFIXED_def by arith
  then show "drop_bit (4 * i) FIXED_CTR_CTRL_INIT AND 0xf = 0xb"
    by (auto simp: FIXED_CTR_CTRL_INIT_def)
next
  show "GLOBAL_CTRL_FIXED_EN = CTR_FIX_POS 0 OR CTR_FIX_POS 1 OR CTR_FIX_POS 2"
    by (simp add: GLOBAL_CTRL_FIXED_EN_def CTR_FIX_POS_def)
qed

theorem cpu_up_order_witness:
  "mt_core_supported parked \<and> intrs_enabled parked \<and>
   mt_cpu_up 0x309 parked =
     Inr (parked\<lparr>trace :=
       [Ml_set_interrupts_enabled False, Wrmsr64 0x309 40, Wrmsr64 0x30a 41, Wrmsr64 0x30b 42,
        Wrmsr64 0x38d 0xbbb, Wrmsr64 0x38f 0x700000000, Ml_set_interrupts_enabled True]\<rparr>) \<and>
   mt_core_supported five_below \<and> \<not> intrs_enabled five_below \<and>
   core_up 0x309 five_below =
     Inr (five_below\<lparr>trace :=
       [Wrmsr64 0x309 0xFFFFFFFFFFFB, Wrmsr64 0x30a 0xFFFFFFFFFFFB, Wrmsr64 0x30b 0xFFFFFFFFFFFB,
        Wrmsr64 0x38d 0xbbb, Wrmsr64 0x38f 0x700000000]\<rparr>) \<and>
   1 < MT_CORE_NFIXED \<and> drop_bit (4 * 1) FIXED_CTR_CTRL_INIT AND 0xf = 0xb"
proof -
  have h1: "mt_core_supported parked" by (simp add: parked_def pmi_state_def)
  have h2: "mt_core_supported five_below" by (simp add: five_below_def pmi_state_def)
  have h3: "\<not> intrs_enabled five_below" by (simp add: five_below_def pmi_state_def)
  have h4: "(1::nat) < MT_CORE_NFIXED" by (simp add: MT_CORE_NFIXED_def)
  from cpu_up_order [OF h1, of "0x309"] have
    "mt_cpu_up 0x309 parked =
     Inr (parked\<lparr>trace :=
       [Ml_set_interrupts_enabled False, Wrmsr64 0x309 40, Wrmsr64 0x30a 41, Wrmsr64 0x30b 42,
        Wrmsr64 0x38d 0xbbb, Wrmsr64 0x38f 0x700000000, Ml_set_interrupts_enabled True]\<rparr>)"
    by (simp add: parked_def pmi_state_def PMC_FIXED_WR_def FIXED_CTR_CTRL_def
          FIXED_CTR_CTRL_INIT_def GLOBAL_CTRL_def GLOBAL_CTRL_FIXED_EN_def)
  moreover from cpu_up_order [OF h2, of "0x309"] h3 have
    "core_up 0x309 five_below =
     Inr (five_below\<lparr>trace :=
       [Wrmsr64 0x309 0xFFFFFFFFFFFB, Wrmsr64 0x30a 0xFFFFFFFFFFFB, Wrmsr64 0x30b 0xFFFFFFFFFFFB,
        Wrmsr64 0x38d 0xbbb, Wrmsr64 0x38f 0x700000000]\<rparr>)"
    by (simp add: five_below_def pmi_state_def PMC_FIXED_WR_def FIXED_CTR_CTRL_def
          FIXED_CTR_CTRL_INIT_def GLOBAL_CTRL_def GLOBAL_CTRL_FIXED_EN_def)
  moreover from cpu_up_order [OF h1, of "0x309"] h4 have
    "drop_bit (4 * 1) FIXED_CTR_CTRL_INIT AND 0xf = 0xb" by blast
  moreover have "intrs_enabled parked" by (simp add: parked_def pmi_state_def)
  ultimately show ?thesis using h1 h2 h3 h4 by blast
qed

text \<open>
  C9. While \<open>mt_core_supported\<close> is unset, \<open>mt_core_snap\<close> returns 0 and
  \<open>mt_core_set_snap\<close> returns with the state as it was, for every counter number,
  the numbers above 2 included: the flag is tested before the \<open>switch\<close>, so nothing panics.
\<close>

theorem unsupported_snap_is_gated:
  assumes "\<not> mt_core_supported m"
  shows "mt_core_snap ctr m = Inr 0 \<and> mt_core_set_snap fixed_ctr0 ctr count m = Inr m"
  using assms by (simp add: mt_core_snap_def mt_core_set_snap_def)

theorem unsupported_snap_is_gated_witness:
  "\<not> mt_core_supported quiet \<and> mt_core_snap 3 quiet = Inr 0 \<and>
   mt_core_set_snap 0x309 3 42 quiet = Inr quiet"
  using unsupported_snap_is_gated [of quiet 3 "0x309" 42] by (simp add: quiet_def)

text \<open>
  C10. A run of the handler that returns writes no MSR: the log grows by the call of
  \<open>kpc_pmi_handler\<close> when a low status bit is set and by nothing otherwise. It returns 0,
  \<open>mt_pmis\<close> is one more, and of the rest of the state only the per-core record may have
  changed. It returns whenever interrupts are off and the snapshot of each overflowed
  counter is at most \<open>CTR_MAX\<close> (the helper touching only the counter it is called for).
\<close>

theorem pmi_writes_no_register:
  "(\<forall>r m'. mt_pmi_x86_64 upd state m = Inr (r, m') \<longrightarrow>
      r = 0 \<and>
      trace m' = trace m @
        (if msr_value m GLOBAL_STATUS AND (push_bit 4 1 - 1) \<noteq> 0
         then [Kpc_pmi_handler state] else []) \<and>
      (\<forall>msr val. Wrmsr64 msr val \<notin> set (drop (length (trace m)) (trace m'))) \<and>
      mt_pmis m' = mt_pmis m + 1 \<and>
      mt_core_supported m' = mt_core_supported m \<and> intrs_enabled m' = intrs_enabled m \<and>
      msr_value m' = msr_value m \<and> pmc_value m' = pmc_value m) \<and>
   (\<not> intrs_enabled m \<and> keeps_others upd \<and>
    (\<forall>i<MT_CORE_NFIXED. msr_value m GLOBAL_STATUS AND CTR_FIX_POS i \<noteq> 0 \<longrightarrow>
       mtc_snaps (cpu_monotonic m) i \<le> CTR_MAX) \<longrightarrow>
    (\<exists>m'. mt_pmi_x86_64 upd state m = Inr (0, m')))"
proof (intro conjI allI impI)
  fix r m' assume run: "mt_pmi_x86_64 upd state m = Inr (r, m')"
  note f = mt_pmi_Inr [OF run]
  from f show "r = 0" by simp
  from f show t: "trace m' = trace m @
        (if msr_value m GLOBAL_STATUS AND (push_bit 4 1 - 1) \<noteq> 0
         then [Kpc_pmi_handler state] else [])" by simp
  from f show "mt_pmis m' = mt_pmis m + 1" by simp
  from f show "mt_core_supported m' = mt_core_supported m" by simp
  from f show "intrs_enabled m' = intrs_enabled m" by simp
  from f show "msr_value m' = msr_value m" by simp
  from f show "pmc_value m' = pmc_value m" by simp
  fix msr val
  from t show "Wrmsr64 msr val \<notin> set (drop (length (trace m)) (trace m'))" by simp
next
  assume "\<not> intrs_enabled m \<and> keeps_others upd \<and>
    (\<forall>i<MT_CORE_NFIXED. msr_value m GLOBAL_STATUS AND CTR_FIX_POS i \<noteq> 0 \<longrightarrow>
       mtc_snaps (cpu_monotonic m) i \<le> CTR_MAX)"
  then show "\<exists>m'. mt_pmi_x86_64 upd state m = Inr (0, m')"
    by (simp add: mt_pmi_returns)
qed

theorem pmi_writes_no_register_witness:
  "\<not> intrs_enabled configurable_overflow \<and> keeps_others untouched \<and>
   mtc_snaps (cpu_monotonic configurable_overflow) 0 \<le> CTR_MAX \<and>
   mtc_snaps (cpu_monotonic configurable_overflow) 1 \<le> CTR_MAX \<and>
   mtc_snaps (cpu_monotonic configurable_overflow) 2 \<le> CTR_MAX \<and>
   (\<exists>m'. mt_pmi_x86_64 untouched 0x1234 configurable_overflow = Inr (0, m') \<and>
      trace m' = [Kpc_pmi_handler 0x1234] \<and> mt_pmis m' = 1 \<and>
      (\<forall>msr val. Wrmsr64 msr val \<notin> set (trace m')))"
proof -
  have g: "mtc_snaps (cpu_monotonic configurable_overflow) 0 \<le> CTR_MAX \<and>
      mtc_snaps (cpu_monotonic configurable_overflow) 1 \<le> CTR_MAX \<and>
      mtc_snaps (cpu_monotonic configurable_overflow) 2 \<le> CTR_MAX"
    by (simp add: configurable_overflow_def pmi_state_def CTR_MAX_def)
  have h2: "\<not> intrs_enabled configurable_overflow"
    by (simp add: configurable_overflow_def pmi_state_def)
  have h3: "keeps_others untouched" by (rule untouched_keeps)
  have h4: "\<forall>i<MT_CORE_NFIXED.
      msr_value configurable_overflow GLOBAL_STATUS AND CTR_FIX_POS i \<noteq> 0 \<longrightarrow>
      mtc_snaps (cpu_monotonic configurable_overflow) i \<le> CTR_MAX"
    by (simp add: configurable_overflow_def pmi_state_def CTR_MAX_def)
  note t = pmi_writes_no_register [of untouched "0x1234" configurable_overflow]
  from t h2 h3 h4 obtain m' where
    r: "mt_pmi_x86_64 untouched 0x1234 configurable_overflow = Inr (0, m')" by blast
  from t r have
    "trace m' = trace configurable_overflow @
        (if msr_value configurable_overflow GLOBAL_STATUS AND (push_bit 4 1 - 1) \<noteq> 0
         then [Kpc_pmi_handler 0x1234] else [])"
    and "mt_pmis m' = mt_pmis configurable_overflow + 1"
    by blast+
  then have "trace m' = [Kpc_pmi_handler 0x1234] \<and> mt_pmis m' = 1"
    by (simp add: configurable_overflow_def pmi_state_def CTR_FIX_POS_def)
  then have "trace m' = [Kpc_pmi_handler 0x1234] \<and> mt_pmis m' = 1 \<and>
      (\<forall>msr val. Wrmsr64 msr val \<notin> set (trace m'))" by simp
  with r h2 h3 g show ?thesis by blast
qed

end
